theory Spec2Isabelle
  imports Main
begin

section \<open>Python notions shared by the three scripts\<close>

text \<open>
  The scripts are plain Python: integers are unbounded (\<^typ>\<open>int\<close>), \<open>%\<close> and \<open>//\<close>
  round towards minus infinity (as \<^const>\<open>modulo\<close> and \<^const>\<open>divide\<close> do on
  \<^typ>\<open>int\<close> for a positive divisor), and subscripting a list with an index outside
  \<open>-len .. len-1\<close> raises \<open>IndexError\<close>.
\<close>

datatype error = IndexError

definition py_getitem :: "'a list \<Rightarrow> int \<Rightarrow> error + 'a" where
  "py_getitem xs i =
     (if 0 \<le> i \<and> i < int (length xs) then Inr (xs ! nat i)
      else if i < 0 \<and> - int (length xs) \<le> i then Inr (xs ! nat (i + int (length xs)))
      else Inl IndexError)"

text \<open>\<open>os.path.join\<close> with one component, as \<open>posixpath\<close> implements it.\<close>

definition path_join :: "string \<Rightarrow> string \<Rightarrow> string" where
  "path_join a b =
     (if b \<noteq> [] \<and> hd b = CHR ''/'' then b
      else if a = [] \<or> last a = CHR ''/'' then a @ b
      else a @ ''/'' @ b)"

text \<open>
  The file system, as far as the scripts look at it: which paths exist.
  \<open>os.path.exists\<close> is membership.
\<close>

type_synonym filesystem = "string set"

definition path_exists :: "filesystem \<Rightarrow> string \<Rightarrow> bool" where
  "path_exists fs p = (p \<in> fs)"


section \<open>verify\_cards.py\<close>

definition CARD_NAMES :: "string list" where
  "CARD_NAMES = [''A'', ''2'', ''3'', ''4'', ''5''] @ [''6'', ''7'', ''8'', ''9'', ''10''] @ [''J'', ''Q'', ''K'']"

definition SUITS :: "string list" where
  "SUITS = [''spades'', ''hearts'', ''diamonds'', ''clubs'']"

definition card_id_to_filename :: "int \<Rightarrow> error + string" where
  "card_id_to_filename card_id =
     (let rank_index = (card_id - 1) mod 13;
          suit_index = (card_id - 1) div 13
      in case py_getitem CARD_NAMES rank_index of
           Inl e \<Rightarrow> Inl e
         | Inr rank \<Rightarrow>
             (case py_getitem SUITS suit_index of
                Inl e \<Rightarrow> Inl e
              | Inr suit \<Rightarrow> Inr (rank @ ''_'' @ suit @ ''.png'')))"

definition cards_dir :: string where
  "cards_dir = ''../public/cards''"

text \<open>
  What \<open>main\<close> prints, one constructor per kind of line (the banners and rules between
  the sections carry no data and are left out).
\<close>

datatype report =
    Dealer_card int string bool
  | Missing_header nat
  | Missing_card int string
  | All_present
  | Sample bool int string

text \<open>The loop \<open>for card_id in range(1, 53)\<close> that fills \<open>missing\<close>.\<close>

fun collect_missing ::
  "filesystem \<Rightarrow> int list \<Rightarrow> (int \<times> string) list \<Rightarrow> error + (int \<times> string) list" where
  "collect_missing fs [] missing = Inr missing"
| "collect_missing fs (card_id # ids) missing =
     (case card_id_to_filename card_id of
        Inl e \<Rightarrow> Inl e
      | Inr filename \<Rightarrow>
          (let filepath = path_join cards_dir filename
           in if \<not> path_exists fs filepath
              then collect_missing fs ids (missing @ [(card_id, filename)])
              else collect_missing fs ids missing))"

text \<open>The summary printed after the loop: \<open>if missing: ... else: ...\<close>.\<close>

definition missing_summary :: "(int \<times> string) list \<Rightarrow> report list" where
  "missing_summary missing =
     (if missing \<noteq> [] then
        Missing_header (length missing) # map (\<lambda>(card_id, filename). Missing_card card_id filename) missing
      else [All_present])"

text \<open>The loop over \<open>test_cards\<close> that prints the sample mappings.\<close>

fun sample_lines :: "filesystem \<Rightarrow> int list \<Rightarrow> error + report list" where
  "sample_lines fs [] = Inr []"
| "sample_lines fs (card_id # ids) =
     (case card_id_to_filename card_id of
        Inl e \<Rightarrow> Inl e
      | Inr filename \<Rightarrow>
          (let exists = path_exists fs (path_join cards_dir filename)
           in case sample_lines fs ids of
                Inl e \<Rightarrow> Inl e
              | Inr rest \<Rightarrow> Inr (Sample exists card_id filename # rest)))"

definition test_cards :: "int list" where
  "test_cards = [1, 7, 13, 14, 27, 33, 40, 52]"

text \<open>
  \<open>main\<close>: the bug scenario (cards 7 and 33), the exhaustive check, the sample table.
  It returns the lines it printed, or the exception that ended it.
\<close>

definition main :: "filesystem \<Rightarrow> error + report list" where
  "main fs =
     (let dealer_card_1 = 7; dealer_card_2 = 33
      in case card_id_to_filename dealer_card_1 of
           Inl e \<Rightarrow> Inl e
         | Inr file1 \<Rightarrow>
        (case card_id_to_filename dealer_card_2 of
           Inl e \<Rightarrow> Inl e
         | Inr file2 \<Rightarrow>
        (let bug = [Dealer_card dealer_card_1 file1 (path_exists fs (path_join cards_dir file1)),
                    Dealer_card dealer_card_2 file2 (path_exists fs (path_join cards_dir file2))]
         in case collect_missing fs [1..52] [] of
              Inl e \<Rightarrow> Inl e
            | Inr missing \<Rightarrow>
           (case sample_lines fs test_cards of
              Inl e \<Rightarrow> Inl e
            | Inr samples \<Rightarrow> Inr (bug @ missing_summary missing @ samples)))))"

text \<open>The 52 names \<open><rank>_<suit>.png\<close>.\<close>

definition rank_suit_filenames :: "string set" where
  "rank_suit_filenames = (\<lambda>(rank, suit). rank @ ''_'' @ suit @ ''.png'') ` (set CARD_NAMES \<times> set SUITS)"


section \<open>Images\<close>

text \<open>
  The part of the imaging library the scripts call. An image has a mode, a size and its
  pixels row by row (what \<open>getdata\<close> returns and \<open>putdata\<close> stores). A pixel is kept as
  four channel values \<open>(r, g, b, a)\<close>; an image of mode \<open>RGB\<close> has no alpha channel,
  its pixels are read with the first three. Channel values are Python integers.
\<close>

type_synonym pixel = "int \<times> int \<times> int \<times> int"

datatype mode = RGB | RGBA

record image =
  mode :: mode
  width :: nat
  height :: nat
  data :: "pixel list"

definition getpixel :: "image \<Rightarrow> nat \<Rightarrow> nat \<Rightarrow> pixel" where
  "getpixel img x y = data img ! (y * width img + x)"

text \<open>\<open>img.convert("RGBA")\<close>: an image without alpha becomes fully opaque.\<close>

definition convert_RGBA :: "image \<Rightarrow> image" where
  "convert_RGBA img =
     (case mode img of
        RGBA \<Rightarrow> img
      | RGB \<Rightarrow> img\<lparr>mode := RGBA, data := map (\<lambda>(r, g, b, a). (r, g, b, 255)) (data img)\<rparr>)"

text \<open>\<open>img.convert("RGB")\<close>: the alpha channel is dropped.\<close>

definition convert_RGB :: "image \<Rightarrow> image" where
  "convert_RGB img = img\<lparr>mode := RGB, data := map (\<lambda>(r, g, b, a). (r, g, b, 255)) (data img)\<rparr>"

text \<open>
  \<open>img.crop((left, upper, right, lower))\<close>: the pixels of the box; where the box leaves
  the image the library fills with zeros (black, and transparent when there is an alpha
  channel). Every box the scripts build has \<open>left \<le> right\<close> and \<open>upper \<le> lower\<close>.
\<close>

definition zero_pixel :: "mode \<Rightarrow> pixel" where
  "zero_pixel m = (case m of RGBA \<Rightarrow> (0, 0, 0, 0) | RGB \<Rightarrow> (0, 0, 0, 255))"

definition pixel_or_zero :: "image \<Rightarrow> nat \<Rightarrow> nat \<Rightarrow> pixel" where
  "pixel_or_zero img x y =
     (if x < width img \<and> y < height img then getpixel img x y else zero_pixel (mode img))"

definition crop :: "nat \<times> nat \<times> nat \<times> nat \<Rightarrow> image \<Rightarrow> image" where
  "crop box img =
     (case box of (left, upper, right, lower) \<Rightarrow>
        \<lparr>mode = mode img, width = right - left, height = lower - upper,
         data = concat (map (\<lambda>y. map (\<lambda>x. pixel_or_zero img (left + x) (upper + y))
                                        [0..<right - left])
                            [0..<lower - upper])\<rparr>)"

text \<open>
  \<open>img.getbbox()\<close>: the bounding box \<open>(left, upper, right, lower)\<close> of the non-zero
  region, \<open>None\<close> when there is none. With an alpha channel the library looks at alpha
  only (transparent pixels are trimmed); without one, at the colour channels.
\<close>

definition nonzero :: "mode \<Rightarrow> pixel \<Rightarrow> bool" where
  "nonzero m p =
     (case p of (r, g, b, a) \<Rightarrow>
        (case m of RGBA \<Rightarrow> a \<noteq> 0 | RGB \<Rightarrow> (r, g, b) \<noteq> (0, 0, 0)))"

definition column_has_content :: "image \<Rightarrow> nat \<Rightarrow> bool" where
  "column_has_content img x = list_ex (\<lambda>y. nonzero (mode img) (getpixel img x y)) [0..<height img]"

definition row_has_content :: "image \<Rightarrow> nat \<Rightarrow> bool" where
  "row_has_content img y = list_ex (\<lambda>x. nonzero (mode img) (getpixel img x y)) [0..<width img]"

definition getbbox :: "image \<Rightarrow> (nat \<times> nat \<times> nat \<times> nat) option" where
  "getbbox img =
     (let xs = filter (column_has_content img) [0..<width img];
          ys = filter (row_has_content img) [0..<height img]
      in if xs = [] \<or> ys = [] then None
         else Some (hd xs, hd ys, Suc (last xs), Suc (last ys)))"

text \<open>The alpha channel of a pixel; \<open>0\<close> is fully transparent.\<close>

definition alpha :: "pixel \<Rightarrow> int" where
  "alpha p = (case p of (r, g, b, a) \<Rightarrow> a)"

text \<open>An image whose pixel list has the length its size announces.\<close>

definition well_formed :: "image \<Rightarrow> bool" where
  "well_formed img = (length (data img) = width img * height img)"


section \<open>analyze\_cards.py\<close>

text \<open>The conditional expression that names the colour of a sampled pixel.\<close>

definition color_type :: "int \<Rightarrow> int \<Rightarrow> int \<Rightarrow> string" where
  "color_type r g b =
     (if g > r + 10 \<and> g > b + 5 then ''GREEN''
      else if r > 200 \<and> g > 200 \<and> b > 200 then ''WHITE''
      else ''OTHER'')"

text \<open>
  \<open>img_rgb.getpixel((x, y))\<close> raises \<open>IndexError\<close> outside the image. A printed line
  holds the coordinate, the three channels and the colour name.
\<close>

definition getpixel_checked :: "image \<Rightarrow> nat \<Rightarrow> nat \<Rightarrow> error + pixel" where
  "getpixel_checked img x y =
     (if x < width img \<and> y < height img then Inr (getpixel img x y) else Inl IndexError)"

type_synonym sample = "nat \<times> int \<times> int \<times> int \<times> string"

fun horizontal_scan :: "image \<Rightarrow> nat list \<Rightarrow> error + sample list" where
  "horizontal_scan img_rgb [] = Inr []"
| "horizontal_scan img_rgb (x # xs) =
     (case getpixel_checked img_rgb x 700 of
        Inl e \<Rightarrow> Inl e
      | Inr (r, g, b, a) \<Rightarrow>
          (case horizontal_scan img_rgb xs of
             Inl e \<Rightarrow> Inl e
           | Inr rest \<Rightarrow> Inr ((x, r, g, b, color_type r g b) # rest)))"

fun vertical_scan :: "image \<Rightarrow> nat list \<Rightarrow> error + sample list" where
  "vertical_scan img_rgb [] = Inr []"
| "vertical_scan img_rgb (y # ys) =
     (case getpixel_checked img_rgb 225 y of
        Inl e \<Rightarrow> Inl e
      | Inr (r, g, b, a) \<Rightarrow>
          (case vertical_scan img_rgb ys of
             Inl e \<Rightarrow> Inl e
           | Inr rest \<Rightarrow> Inr ((y, r, g, b, color_type r g b) # rest)))"

text \<open>\<open>range(0, stop, step)\<close> for a positive step.\<close>

definition py_range0 :: "nat \<Rightarrow> nat \<Rightarrow> nat list" where
  "py_range0 stop step = map (\<lambda>k. k * step) [0..<(stop + step - 1) div step]"

text \<open>
  \<open>analyze_sprite_sheet\<close>: the lines of the horizontal scan (\<open>x\<close> in
  \<open>range(0, 900, 10)\<close> at \<open>y = 700\<close>), then those of the vertical scan (\<open>y\<close> in
  \<open>range(0, 1300, 20)\<close> at \<open>x = 225\<close>).
\<close>

definition analyze_sprite_sheet :: "image \<Rightarrow> error + sample list" where
  "analyze_sprite_sheet img =
     (let img_rgb = convert_RGB img
      in case horizontal_scan img_rgb (py_range0 900 10) of
           Inl e \<Rightarrow> Inl e
         | Inr across \<Rightarrow>
             (case vertical_scan img_rgb (py_range0 1300 20) of
                Inl e \<Rightarrow> Inl e
              | Inr down \<Rightarrow> Inr (across @ down)))"


section \<open>slice\_cards.py\<close>

definition OUTPUT_DIR :: string where
  "OUTPUT_DIR = ''../public/cards''"

definition ROWS :: nat where
  "ROWS = 6"

definition COLS :: nat where
  "COLS = 9"

definition CARD_MAP :: "string list list" where
  "CARD_MAP =
    [[''K_diamonds'', ''K_spades'', ''K_hearts'', ''K_clubs'', ''A_clubs'',
      ''7_diamonds'', ''7_spades'', ''7_hearts'', ''7_clubs''],
     [''Q_diamonds'', ''Q_spades'', ''Q_hearts'', ''Q_clubs'', ''A_hearts'',
      ''6_diamonds'', ''6_spades'', ''6_hearts'', ''6_clubs''],
     [''J_diamonds'', ''J_spades'', ''J_hearts'', ''J_clubs'', ''A_spades'',
      ''5_diamonds'', ''5_spades'', ''5_hearts'', ''5_clubs''],
     [''10_diamonds'', ''10_spades'', ''10_hearts'', ''10_clubs'', ''A_diamonds'',
      ''4_diamonds'', ''4_spades'', ''4_hearts'', ''4_clubs''],
     [''9_diamonds'', ''9_spades'', ''9_hearts'', ''9_clubs'', ''joker'',
      ''3_diamonds'', ''3_spades'', ''3_hearts'', ''3_clubs''],
     [''8_diamonds'', ''8_spades'', ''8_hearts'', ''8_clubs'', ''back'',
      ''2_diamonds'', ''2_spades'', ''2_hearts'', ''2_clubs'']]"

text \<open>The body of the loop over the pixels of \<open>remove_green_background\<close>.\<close>

definition is_green :: "pixel \<Rightarrow> bool" where
  "is_green item =
     (case item of (r, g, b, a) \<Rightarrow>
        abs (r - 17) < 40 \<and> abs (g - 94) < 50 \<and> abs (b - 63) < 40 \<and> g > r \<and> g > b)"

definition is_dark_green :: "pixel \<Rightarrow> bool" where
  "is_dark_green item =
     (case item of (r, g, b, a) \<Rightarrow>
        g > r + 10 \<and> g > b + 5 \<and> r < 80 \<and> g < 180 \<and> b < 100)"

definition remove_green_pixel :: "pixel \<Rightarrow> pixel" where
  "remove_green_pixel item =
     (if is_green item \<or> is_dark_green item then (0, 0, 0, 0) else item)"

text \<open>
  \<open>remove_green_background\<close>: convert, run the loop over \<open>getdata()\<close> (one output pixel
  appended per input pixel, in order), store with \<open>putdata\<close>. The parameter
  \<open>tolerance\<close> is never read.
\<close>

definition remove_green_background :: "image \<Rightarrow> image" where
  "remove_green_background img =
     (let img = convert_RGBA img
      in img\<lparr>data := map remove_green_pixel (data img)\<rparr>)"

definition crop_transparent_borders :: "image \<Rightarrow> image" where
  "crop_transparent_borders img =
     (case getbbox img of
        Some bbox \<Rightarrow> crop bbox img
      | None \<Rightarrow> img)"

text \<open>The measurements fixed inside \<open>slice_cards\<close>.\<close>

definition FIRST_CARD_X :: nat where "FIRST_CARD_X = 72"
definition FIRST_CARD_Y :: nat where "FIRST_CARD_Y = 544"
definition CARD_WIDTH :: nat where "CARD_WIDTH = 428"
definition CARD_HEIGHT :: nat where "CARD_HEIGHT = 576"
definition H_GAP :: nat where "H_GAP = 62"
definition V_GAP :: nat where "V_GAP = 84"

text \<open>
  What a run of the slicer changes and prints: the counter, the set of names seen, the
  files of the output directory (path to content), the calls of \<open>card.save\<close> in order,
  and the progress lines.
\<close>

datatype progress = Saved string nat nat | Skipped_duplicate string

record slicer =
  card_count :: nat
  seen_cards :: "string set"
  files :: "string \<rightharpoonup> image"
  saves :: "(string \<times> image) list"
  printed :: "progress list"

text \<open>The card of a grid cell: cropped at the cell's box, background removed, trimmed.\<close>

definition cell_card :: "image \<Rightarrow> nat \<times> nat \<Rightarrow> image" where
  "cell_card sprite_sheet cell =
     (case cell of (row, col) \<Rightarrow>
        (let left = FIRST_CARD_X + col * (CARD_WIDTH + H_GAP);
             upper = FIRST_CARD_Y + row * (CARD_HEIGHT + V_GAP);
             right = left + CARD_WIDTH;
             lower = upper + CARD_HEIGHT;
             card = crop (left, upper, right, lower) sprite_sheet;
             card = remove_green_background card;
             card = crop_transparent_borders card
         in card))"

text \<open>\<open>card_map[row][col]\<close>.\<close>

definition cell_name :: "string list list \<Rightarrow> nat \<times> nat \<Rightarrow> error + string" where
  "cell_name card_map cell =
     (case cell of (row, col) \<Rightarrow>
        (case py_getitem card_map (int row) of
           Inl e \<Rightarrow> Inl e
         | Inr names \<Rightarrow> py_getitem names (int col)))"

text \<open>The end of the loop body: skip a name already seen, else save the card.\<close>

definition save_unique :: "slicer \<Rightarrow> string \<Rightarrow> image \<Rightarrow> slicer" where
  "save_unique st card_name card' =
     (if card_name \<in> seen_cards st then
        st\<lparr>printed := printed st @ [Skipped_duplicate card_name]\<rparr>
      else
        (let filename = card_name @ ''.png'';
             output_path = path_join OUTPUT_DIR filename
         in st\<lparr>seen_cards := insert card_name (seen_cards st),
                files := (files st)(output_path \<mapsto> card'),
                saves := saves st @ [(output_path, card')],
                card_count := card_count st + 1,
                printed := printed st @ [Saved filename (width card') (height card')]\<rparr>))"

definition slice_cell :: "string list list \<Rightarrow> image \<Rightarrow> nat \<times> nat \<Rightarrow> slicer \<Rightarrow> error + slicer" where
  "slice_cell card_map sprite_sheet cell st =
     (let card' = cell_card sprite_sheet cell
      in case cell_name card_map cell of
           Inl e \<Rightarrow> Inl e
         | Inr card_name \<Rightarrow> Inr (save_unique st card_name card'))"

text \<open>The inner loop \<open>for col in range(COLS)\<close> and the outer loop \<open>for row in range(ROWS)\<close>.\<close>

fun slice_row :: "string list list \<Rightarrow> image \<Rightarrow> nat \<Rightarrow> nat list \<Rightarrow> slicer \<Rightarrow> error + slicer" where
  "slice_row card_map sprite_sheet row [] st = Inr st"
| "slice_row card_map sprite_sheet row (col # cols) st =
     (case slice_cell card_map sprite_sheet (row, col) st of
        Inl e \<Rightarrow> Inl e
      | Inr st' \<Rightarrow> slice_row card_map sprite_sheet row cols st')"

fun slice_rows :: "string list list \<Rightarrow> image \<Rightarrow> nat \<Rightarrow> nat list \<Rightarrow> slicer \<Rightarrow> error + slicer" where
  "slice_rows card_map sprite_sheet ncols [] st = Inr st"
| "slice_rows card_map sprite_sheet ncols (row # rows) st =
     (case slice_row card_map sprite_sheet row [0..<ncols] st of
        Inl e \<Rightarrow> Inl e
      | Inr st' \<Rightarrow> slice_rows card_map sprite_sheet ncols rows st')"

text \<open>
  \<open>slice_cards\<close> with the table and the grid size as parameters; the directory's files
  before the run are \<open>fs\<close>.
\<close>

definition slice_grid ::
  "string list list \<Rightarrow> nat \<Rightarrow> nat \<Rightarrow> image \<Rightarrow> (string \<rightharpoonup> image) \<Rightarrow> error + slicer" where
  "slice_grid card_map nrows ncols sprite_sheet fs =
     slice_rows card_map sprite_sheet ncols [0..<nrows]
       \<lparr>card_count = 0, seen_cards = {}, files = fs, saves = [], printed = []\<rparr>"

definition slice_cards :: "image \<Rightarrow> (string \<rightharpoonup> image) \<Rightarrow> error + slicer" where
  "slice_cards sprite_sheet fs = slice_grid CARD_MAP ROWS COLS sprite_sheet fs"

text \<open>The cells of a grid in the order the loops visit them.\<close>

definition grid_cells :: "nat \<Rightarrow> nat \<Rightarrow> (nat \<times> nat) list" where
  "grid_cells nrows ncols = concat (map (\<lambda>row. map (\<lambda>col. (row, col)) [0..<ncols]) [0..<nrows])"

text \<open>
  Notions used to state what a run of the slicer does: the name the table gives a cell,
  the path a card of that name is saved at (\<open>filename\<close> and \<open>output_path\<close> of the loop
  body), whether position \<open>j\<close> of a list of names is the first one with its name, and the
  loop body run over a list of (name, card) pairs from the state \<open>slice_cards\<close> starts in.
\<close>

definition name_of :: "string list list \<Rightarrow> nat \<times> nat \<Rightarrow> string" where
  "name_of card_map cell = (case cell_name card_map cell of Inr card_name \<Rightarrow> card_name | Inl e \<Rightarrow> [])"

definition output_path_of :: "string \<Rightarrow> string" where
  "output_path_of card_name = path_join OUTPUT_DIR (card_name @ ''.png'')"

definition first_occurrence :: "string list \<Rightarrow> nat \<Rightarrow> bool" where
  "first_occurrence names j = (names ! j \<notin> set (take j names))"

definition save_cards :: "(string \<rightharpoonup> image) \<Rightarrow> (string \<times> image) list \<Rightarrow> slicer" where
  "save_cards fs cards =
     foldl (\<lambda>st (card_name, card'). save_unique st card_name card')
       \<lparr>card_count = 0, seen_cards = {}, files = fs, saves = [], printed = []\<rparr> cards"


section \<open>Properties of the verifier\<close>

lemma card_id_to_filename_table:
  "map card_id_to_filename [1..52] =
     map Inr [''A_spades.png'', ''2_spades.png'', ''3_spades.png'', ''4_spades.png'', ''5_spades.png'',
       ''6_spades.png'', ''7_spades.png'', ''8_spades.png'', ''9_spades.png'', ''10_spades.png'',
       ''J_spades.png'', ''Q_spades.png'', ''K_spades.png'',
       ''A_hearts.png'', ''2_hearts.png'', ''3_hearts.png'', ''4_hearts.png'', ''5_hearts.png'',
       ''6_hearts.png'', ''7_hearts.png'', ''8_hearts.png'', ''9_hearts.png'', ''10_hearts.png'',
       ''J_hearts.png'', ''Q_hearts.png'', ''K_hearts.png'',
       ''A_diamonds.png'', ''2_diamonds.png'', ''3_diamonds.png'', ''4_diamonds.png'', ''5_diamonds.png'',
       ''6_diamonds.png'', ''7_diamonds.png'', ''8_diamonds.png'', ''9_diamonds.png'', ''10_diamonds.png'',
       ''J_diamonds.png'', ''Q_diamonds.png'', ''K_diamonds.png'',
       ''A_clubs.png'', ''2_clubs.png'', ''3_clubs.png'', ''4_clubs.png'', ''5_clubs.png'',
       ''6_clubs.png'', ''7_clubs.png'', ''8_clubs.png'', ''9_clubs.png'', ''10_clubs.png'',
       ''J_clubs.png'', ''Q_clubs.png'', ''K_clubs.png'']"
  by code_simp

lemma card_id_to_filename_formula:
  assumes "1 \<le> card_id" "card_id \<le> 52"
  shows "card_id_to_filename card_id =
     Inr (CARD_NAMES ! nat ((card_id - 1) mod 13) @ ''_'' @ SUITS ! nat ((card_id - 1) div 13) @ ''.png'')"
proof -
  have r: "0 \<le> (card_id - 1) mod 13" "(card_id - 1) mod 13 < 13" by simp_all
  have s: "0 \<le> (card_id - 1) div 13" "(card_id - 1) div 13 < 4" using assms by presburger+
  have "py_getitem CARD_NAMES ((card_id - 1) mod 13) = Inr (CARD_NAMES ! nat ((card_id - 1) mod 13))"
    using r by (simp add: py_getitem_def CARD_NAMES_def)
  moreover have "py_getitem SUITS ((card_id - 1) div 13) = Inr (SUITS ! nat ((card_id - 1) div 13))"
    using s by (simp add: py_getitem_def SUITS_def)
  ultimately show ?thesis by (simp add: card_id_to_filename_def)
qed

lemma ids_set: "{1..52::int} = set [1..52]" by simp

lemma card_id_to_filename_inj: "inj_on card_id_to_filename {1..52}"
proof -
  have "distinct (map card_id_to_filename [1..52])"
    unfolding card_id_to_filename_table by (simp add: distinct_map)
  then show ?thesis unfolding ids_set by (simp add: distinct_map)
qed

lemma rank_suit_filenames_list:
  "rank_suit_filenames = set (concat (map (\<lambda>suit. map (\<lambda>rank. rank @ ''_'' @ suit @ ''.png'') CARD_NAMES) SUITS))"
  unfolding rank_suit_filenames_def by auto

lemma rank_suit_filenames_eq: "rank_suit_filenames = set [''A_spades.png'', ''2_spades.png'', ''3_spades.png'', ''4_spades.png'', ''5_spades.png'',
       ''6_spades.png'', ''7_spades.png'', ''8_spades.png'', ''9_spades.png'', ''10_spades.png'',
       ''J_spades.png'', ''Q_spades.png'', ''K_spades.png'',
       ''A_hearts.png'', ''2_hearts.png'', ''3_hearts.png'', ''4_hearts.png'', ''5_hearts.png'',
       ''6_hearts.png'', ''7_hearts.png'', ''8_hearts.png'', ''9_hearts.png'', ''10_hearts.png'',
       ''J_hearts.png'', ''Q_hearts.png'', ''K_hearts.png'',
       ''A_diamonds.png'', ''2_diamonds.png'', ''3_diamonds.png'', ''4_diamonds.png'', ''5_diamonds.png'',
       ''6_diamonds.png'', ''7_diamonds.png'', ''8_diamonds.png'', ''9_diamonds.png'', ''10_diamonds.png'',
       ''J_diamonds.png'', ''Q_diamonds.png'', ''K_diamonds.png'',
       ''A_clubs.png'', ''2_clubs.png'', ''3_clubs.png'', ''4_clubs.png'', ''5_clubs.png'',
       ''6_clubs.png'', ''7_clubs.png'', ''8_clubs.png'', ''9_clubs.png'', ''10_clubs.png'',
       ''J_clubs.png'', ''Q_clubs.png'', ''K_clubs.png'']"
  unfolding rank_suit_filenames_list CARD_NAMES_def SUITS_def
  by (simp only: list.map concat.simps append.simps)

lemma card_id_to_filename_image: "card_id_to_filename ` {1..52} = Inr ` rank_suit_filenames"
  unfolding ids_set rank_suit_filenames_eq set_map [symmetric] card_id_to_filename_table
  by (simp only: list.map_comp set_map [symmetric])

lemma path_join_relative:
  "a \<noteq> [] \<Longrightarrow> hd a \<noteq> CHR ''/'' \<Longrightarrow> last a \<noteq> CHR ''/'' \<Longrightarrow>
   path_join a b = (if b \<noteq> [] \<and> hd b = CHR ''/'' then b else a @ ''/'' @ b)"
  by (simp add: path_join_def)

lemma path_join_inj:
  assumes "a \<noteq> []" "hd a \<noteq> CHR ''/''" "last a \<noteq> CHR ''/''"
  shows "inj (path_join a)"
proof (rule injI)
  fix b c assume eq: "path_join a b = path_join a c"
  have hd_app: "\<And>d. hd (a @ ''/'' @ d) \<noteq> CHR ''/''" using assms by simp
  note rel = path_join_relative [OF assms]
  from eq have "(if b \<noteq> [] \<and> hd b = CHR ''/'' then b else a @ ''/'' @ b)
      = (if c \<noteq> [] \<and> hd c = CHR ''/'' then c else a @ ''/'' @ c)"
    unfolding rel [of b] rel [of c] .
  then show "b = c"
    using hd_app [of b] hd_app [of c] by (auto split: if_splits)
qed

lemma cards_dir_inj: "inj (path_join cards_dir)"
  by (rule path_join_inj) (simp_all add: cards_dir_def)

lemma collect_missing_filter:
  "\<forall>card_id \<in> set ids. \<exists>filename. card_id_to_filename card_id = Inr filename \<Longrightarrow>
   collect_missing fs ids missing =
     Inr (missing @ filter (\<lambda>(card_id, filename). path_join cards_dir filename \<notin> fs)
                      (map (\<lambda>card_id. (card_id, projr (card_id_to_filename card_id))) ids))"
proof (induction ids arbitrary: missing)
  case Nil
  then show ?case by simp
next
  case (Cons card_id ids)
  then obtain filename where f: "card_id_to_filename card_id = Inr filename" by auto
  from Cons.prems have rest: "\<forall>card_id \<in> set ids. \<exists>filename. card_id_to_filename card_id = Inr filename"
    by simp
  show ?case
    by (simp add: f Cons.IH [OF rest] path_exists_def)
qed

lemma valid_ids_have_filenames:
  "\<forall>card_id \<in> set [1..52]. \<exists>filename. card_id_to_filename card_id = Inr filename"
  using card_id_to_filename_formula by auto

lemma filename_is_2_clubs:
  assumes "1 \<le> card_id" "card_id \<le> 52"
  shows "card_id_to_filename card_id = Inr ''2_clubs.png'' \<longleftrightarrow> card_id = 41"
proof
  assume "card_id_to_filename card_id = Inr ''2_clubs.png''"
  moreover have "card_id_to_filename 41 = Inr ''2_clubs.png''"
    by (simp add: card_id_to_filename_def py_getitem_def CARD_NAMES_def SUITS_def)
  ultimately show "card_id = 41"
    using card_id_to_filename_inj assms by (auto dest!: inj_onD [where x = card_id and y = 41])
next
  assume "card_id = 41"
  then show "card_id_to_filename card_id = Inr ''2_clubs.png''"
    by (simp add: card_id_to_filename_def py_getitem_def CARD_NAMES_def SUITS_def)
qed

lemma missing_only_2_clubs:
  assumes present: "\<forall>card_id \<in> {1..52}. \<forall>filename. card_id_to_filename card_id = Inr filename \<longrightarrow>
             filename \<noteq> ''2_clubs.png'' \<longrightarrow> path_exists fs (path_join cards_dir filename)"
      and absent: "\<not> path_exists fs (path_join cards_dir ''2_clubs.png'')"
  shows "collect_missing fs [1..52] [] = Inr [(41, ''2_clubs.png'')]"
proof -
  let ?pairs = "map (\<lambda>card_id. (card_id, projr (card_id_to_filename card_id))) [1..52]"
  have "filter (\<lambda>(card_id, filename). path_join cards_dir filename \<notin> fs) ?pairs
        = filter (\<lambda>(card_id, filename). card_id = 41) ?pairs"
  proof (rule filter_cong [OF refl])
    fix p assume "p \<in> set ?pairs"
    then obtain card_id where p: "p = (card_id, projr (card_id_to_filename card_id))"
      and range: "1 \<le> card_id" "card_id \<le> 52" by auto
    from card_id_to_filename_formula [OF range] obtain filename
      where f: "card_id_to_filename card_id = Inr filename" by blast
    show "(case p of (card_id, filename) \<Rightarrow> path_join cards_dir filename \<notin> fs)
          = (case p of (card_id, filename) \<Rightarrow> card_id = 41)"
    proof (cases "filename = ''2_clubs.png''")
      case True
      with f filename_is_2_clubs [OF range] have "card_id = 41" by simp
      with True f absent p show ?thesis by (simp add: path_exists_def)
    next
      case False
      with f filename_is_2_clubs [OF range] have "card_id \<noteq> 41" by auto
      moreover from present range f False have "path_join cards_dir filename \<in> fs"
        by (simp add: path_exists_def)
      ultimately show ?thesis using p f by simp
    qed
  qed
  also have "\<dots> = map (\<lambda>card_id. (card_id, projr (card_id_to_filename card_id)))
                      (filter (\<lambda>card_id. card_id = 41) [1..52])"
    by (simp only: filter_map comp_def case_prod_conv)
  also have "filter (\<lambda>card_id. card_id = 41) [1..52] = [41::int]"
    by code_simp
  also have "map (\<lambda>card_id. (card_id, projr (card_id_to_filename card_id))) [41]
             = [(41, ''2_clubs.png'')]"
    by (simp add: card_id_to_filename_def py_getitem_def CARD_NAMES_def SUITS_def)
  finally show ?thesis
    by (simp add: collect_missing_filter [OF valid_ids_have_filenames])
qed


text \<open>
  C1: for every card id from 1 to 52, \<open>card_id_to_filename\<close> returns
  \<open><rank>_<suit>.png\<close> with the rank at index \<open>(id-1) mod 13\<close> of the rank table and
  the suit at index \<open>(id-1) div 13\<close> of the suit table; on these ids it is a bijection
  onto the 52 such names; ids 1, 13, 14, 52, 7 and 33 give the names the specification lists.
\<close>

theorem card_id_to_filename_bijection:
  "(\<forall>card_id. 1 \<le> card_id \<and> card_id \<le> 52 \<longrightarrow>
      card_id_to_filename card_id =
        Inr (CARD_NAMES ! nat ((card_id - 1) mod 13) @ ''_'' @ SUITS ! nat ((card_id - 1) div 13) @ ''.png''))
   \<and> bij_betw card_id_to_filename {1..52} (Inr ` rank_suit_filenames)
   \<and> card rank_suit_filenames = 52
   \<and> card_id_to_filename 1 = Inr ''A_spades.png''
   \<and> card_id_to_filename 13 = Inr ''K_spades.png''
   \<and> card_id_to_filename 14 = Inr ''A_hearts.png''
   \<and> card_id_to_filename 52 = Inr ''K_clubs.png''
   \<and> card_id_to_filename 7 = Inr ''7_spades.png''
   \<and> card_id_to_filename 33 = Inr ''7_diamonds.png''"
proof -
  have formula: "\<forall>card_id. 1 \<le> card_id \<and> card_id \<le> 52 \<longrightarrow>
      card_id_to_filename card_id =
        Inr (CARD_NAMES ! nat ((card_id - 1) mod 13) @ ''_'' @ SUITS ! nat ((card_id - 1) div 13) @ ''.png'')"
    using card_id_to_filename_formula by blast
  have bij: "bij_betw card_id_to_filename {1..52} (Inr ` rank_suit_filenames)"
    unfolding bij_betw_def using card_id_to_filename_inj card_id_to_filename_image by blast
  have "card (Inr ` rank_suit_filenames :: (error + string) set) = card {1..52::int}"
    using bij_betw_same_card [OF bij] by simp
  then have count: "card rank_suit_filenames = 52"
    by (simp add: card_image)
  have examples: "card_id_to_filename 1 = Inr ''A_spades.png''"
    "card_id_to_filename 13 = Inr ''K_spades.png''"
    "card_id_to_filename 14 = Inr ''A_hearts.png''"
    "card_id_to_filename 52 = Inr ''K_clubs.png''"
    "card_id_to_filename 7 = Inr ''7_spades.png''"
    "card_id_to_filename 33 = Inr ''7_diamonds.png''"
    by (simp_all add: card_id_to_filename_def py_getitem_def CARD_NAMES_def SUITS_def)
  from formula bij count examples show ?thesis by blast
qed

text \<open>The formula at id 41, the two of clubs.\<close>

theorem card_id_to_filename_bijection_witness:
  "(1::int) \<le> 41 \<and> (41::int) \<le> 52 \<and> card_id_to_filename 41 = Inr ''2_clubs.png''"
  using card_id_to_filename_bijection [THEN conjunct1, THEN spec, of 41]
  by (simp add: CARD_NAMES_def SUITS_def)

text \<open>
  C10: the 1..52 precondition is not checked. For the id 0 Python computes
  \<open>(0-1) % 13 = 12\<close> and \<open>(0-1) // 13 = -1\<close>, the index \<open>-1\<close> selects the last suit, and
  the result is \<open>K_clubs.png\<close>, the name of id 52: with 0 admitted the mapping is not
  injective.
\<close>

theorem card_id_to_filename_zero_collides:
  "card_id_to_filename 0 = Inr ''K_clubs.png''
   \<and> card_id_to_filename 52 = Inr ''K_clubs.png''
   \<and> (0 - 1) mod 13 = (12::int) \<and> (0 - 1) div 13 = (- 1::int)
   \<and> py_getitem SUITS (- 1) = Inr ''clubs''
   \<and> \<not> inj_on card_id_to_filename {0..52}"
proof -
  have v: "card_id_to_filename 0 = Inr ''K_clubs.png''" "card_id_to_filename 52 = Inr ''K_clubs.png''"
    by (simp_all add: card_id_to_filename_def py_getitem_def CARD_NAMES_def SUITS_def)
  have "\<not> inj_on card_id_to_filename {0..52}"
  proof
    assume "inj_on card_id_to_filename {0..52}"
    from inj_onD [OF this, of 0 52] v show False by simp
  qed
  moreover have "py_getitem SUITS (- 1) = Inr ''clubs''"
    by (simp add: py_getitem_def SUITS_def)
  ultimately show ?thesis using v by simp
qed

text \<open>
  C6: when the cards directory holds the file of every id from 1 to 52 except
  \<open>2_clubs.png\<close>, the exhaustive check collects exactly one missing entry, the id 41 whose
  name is \<open>2_clubs.png\<close>, and no other id; \<open>main\<close> does not raise, and prints the summary
  (a header counting one missing card and the line for id 41) between the bug scenario
  and the sample table.
\<close>

theorem exhaustive_check_missing_2_clubs:
  assumes present: "\<forall>card_id \<in> {1..52}. \<forall>filename. card_id_to_filename card_id = Inr filename \<longrightarrow>
             filename \<noteq> ''2_clubs.png'' \<longrightarrow> path_exists fs (path_join cards_dir filename)"
      and absent: "\<not> path_exists fs (path_join cards_dir ''2_clubs.png'')"
  shows "collect_missing fs [1..52] [] = Inr [(41, ''2_clubs.png'')]
     \<and> card_id_to_filename 41 = Inr ''2_clubs.png''
     \<and> (\<forall>card_id \<in> {1..52}. card_id_to_filename card_id = Inr ''2_clubs.png'' \<longrightarrow> card_id = 41)
     \<and> main fs = Inr [Dealer_card 7 ''7_spades.png'' True, Dealer_card 33 ''7_diamonds.png'' True,
                       Missing_header 1, Missing_card 41 ''2_clubs.png'',
                       Sample True 1 ''A_spades.png'', Sample True 7 ''7_spades.png'',
                       Sample True 13 ''K_spades.png'', Sample True 14 ''A_hearts.png'',
                       Sample True 27 ''A_diamonds.png'', Sample True 33 ''7_diamonds.png'',
                       Sample True 40 ''A_clubs.png'', Sample True 52 ''K_clubs.png'']"
proof -
  have missing: "collect_missing fs [1..52] [] = Inr [(41, ''2_clubs.png'')]"
    using present absent by (rule missing_only_2_clubs)
  have only: "\<forall>card_id \<in> {1..52}. card_id_to_filename card_id = Inr ''2_clubs.png'' \<longrightarrow> card_id = 41"
    using filename_is_2_clubs by simp
  have there: "path_exists fs (path_join cards_dir filename)"
    if "card_id_to_filename card_id = Inr filename" "1 \<le> card_id" "card_id \<le> 52"
       "filename \<noteq> ''2_clubs.png''" for card_id filename
    using present that by simp
  have fnames: "card_id_to_filename 1 = Inr ''A_spades.png''"
    "card_id_to_filename 7 = Inr ''7_spades.png''"
    "card_id_to_filename 13 = Inr ''K_spades.png''"
    "card_id_to_filename 14 = Inr ''A_hearts.png''"
    "card_id_to_filename 27 = Inr ''A_diamonds.png''"
    "card_id_to_filename 33 = Inr ''7_diamonds.png''"
    "card_id_to_filename 40 = Inr ''A_clubs.png''"
    "card_id_to_filename 52 = Inr ''K_clubs.png''"
    "card_id_to_filename 41 = Inr ''2_clubs.png''"
    by (simp_all add: card_id_to_filename_def py_getitem_def CARD_NAMES_def SUITS_def)
  have files: "path_exists fs (path_join cards_dir ''A_spades.png'')"
    "path_exists fs (path_join cards_dir ''7_spades.png'')"
    "path_exists fs (path_join cards_dir ''K_spades.png'')"
    "path_exists fs (path_join cards_dir ''A_hearts.png'')"
    "path_exists fs (path_join cards_dir ''A_diamonds.png'')"
    "path_exists fs (path_join cards_dir ''7_diamonds.png'')"
    "path_exists fs (path_join cards_dir ''A_clubs.png'')"
    "path_exists fs (path_join cards_dir ''K_clubs.png'')"
    using fnames(1-8) [THEN there] by simp_all
  have "main fs = Inr [Dealer_card 7 ''7_spades.png'' True, Dealer_card 33 ''7_diamonds.png'' True,
                       Missing_header 1, Missing_card 41 ''2_clubs.png'',
                       Sample True 1 ''A_spades.png'', Sample True 7 ''7_spades.png'',
                       Sample True 13 ''K_spades.png'', Sample True 14 ''A_hearts.png'',
                       Sample True 27 ''A_diamonds.png'', Sample True 33 ''7_diamonds.png'',
                       Sample True 40 ''A_clubs.png'', Sample True 52 ''K_clubs.png'']"
    by (simp add: main_def missing fnames files test_cards_def missing_summary_def)
  with missing only fnames(9) show ?thesis by blast
qed

text \<open>A directory that holds exactly the other 51 files.\<close>

theorem exhaustive_check_missing_2_clubs_witness:
  "collect_missing (path_join cards_dir ` (rank_suit_filenames - {''2_clubs.png''})) [1..52] []
     = Inr [(41, ''2_clubs.png'')]"
proof -
  let ?fs = "path_join cards_dir ` (rank_suit_filenames - {''2_clubs.png''})"
  have present: "\<forall>card_id \<in> {1..52}. \<forall>filename. card_id_to_filename card_id = Inr filename \<longrightarrow>
             filename \<noteq> ''2_clubs.png'' \<longrightarrow> path_exists ?fs (path_join cards_dir filename)"
  proof (intro ballI allI impI)
    fix card_id :: int and filename
    assume "card_id \<in> {1..52}" and f: "card_id_to_filename card_id = Inr filename"
      and other: "filename \<noteq> ''2_clubs.png''"
    then have "Inr filename \<in> card_id_to_filename ` {1..52}" by force
    then have "filename \<in> rank_suit_filenames"
      unfolding card_id_to_filename_image by auto
    with other show "path_exists ?fs (path_join cards_dir filename)"
      by (simp add: path_exists_def)
  qed
  have absent: "\<not> path_exists ?fs (path_join cards_dir ''2_clubs.png'')"
    using cards_dir_inj by (auto simp: path_exists_def dest: injD)
  from exhaustive_check_missing_2_clubs [OF present absent] show ?thesis by blast
qed

section \<open>Properties of the background removal\<close>

text \<open>
  C4, as the code has it: for every input pixel \<open>(r, g, b, a)\<close> the loop body gives
  \<open>(0, 0, 0, 0)\<close> when the pixel meets the primary tolerance rule or the secondary
  dark-green rule, and the pixel unchanged otherwise. So the output is \<open>(0, 0, 0, 0)\<close>
  exactly when one of the two rules holds or the input already is \<open>(0, 0, 0, 0)\<close>. The
  image keeps its size, and its pixels are those of the converted image, each put
  through the loop body.
\<close>

theorem remove_green_pixel_rule:
  "remove_green_pixel (r, g, b, a) =
     (if (abs (r - 17) < 40 \<and> abs (g - 94) < 50 \<and> abs (b - 63) < 40 \<and> g > r \<and> g > b)
         \<or> (g > r + 10 \<and> g > b + 5 \<and> r < 80 \<and> g < 180 \<and> b < 100)
      then (0, 0, 0, 0) else (r, g, b, a))
   \<and> (remove_green_pixel (r, g, b, a) = (0, 0, 0, 0) \<longleftrightarrow>
        (abs (r - 17) < 40 \<and> abs (g - 94) < 50 \<and> abs (b - 63) < 40 \<and> g > r \<and> g > b)
        \<or> (g > r + 10 \<and> g > b + 5 \<and> r < 80 \<and> g < 180 \<and> b < 100)
        \<or> (r, g, b, a) = (0, 0, 0, 0))
   \<and> data (remove_green_background img) = map remove_green_pixel (data (convert_RGBA img))
   \<and> width (remove_green_background img) = width img
   \<and> height (remove_green_background img) = height img"
  by (cases "mode img")
     (auto simp: remove_green_pixel_def is_green_def is_dark_green_def
        remove_green_background_def convert_RGBA_def Let_def)

text \<open>
  C4 as stated asks for \<open>(0, 0, 0, 0)\<close> only for pixels that meet a rule. The
  transparent black pixel meets neither rule (its green channel is not above its red
  one) and still comes out as \<open>(0, 0, 0, 0)\<close>, unchanged.
\<close>

theorem transparent_input_not_background:
  "remove_green_pixel (0, 0, 0, 0) = (0, 0, 0, 0)
   \<and> \<not> (abs ((0::int) - 17) < 40 \<and> abs ((0::int) - 94) < 50 \<and> abs ((0::int) - 63) < 40
          \<and> (0::int) > 0 \<and> (0::int) > 0)
   \<and> \<not> ((0::int) > 0 + 10 \<and> (0::int) > 0 + 5 \<and> (0::int) < 80 \<and> (0::int) < 180 \<and> (0::int) < 100)"
  by (simp add: remove_green_pixel_def is_green_def is_dark_green_def)

lemma remove_green_pixel_idem: "remove_green_pixel (remove_green_pixel p) = remove_green_pixel p"
  by (cases p) (simp add: remove_green_pixel_def is_green_def is_dark_green_def)

lemma convert_RGBA_idem: "convert_RGBA (convert_RGBA img) = convert_RGBA img"
  by (cases "mode img") (simp_all add: convert_RGBA_def)

lemma mode_remove_green_background: "mode (remove_green_background img) = RGBA"
  by (cases "mode img") (simp_all add: remove_green_background_def convert_RGBA_def)

lemma remove_green_background_RGBA:
  "mode img = RGBA \<Longrightarrow> remove_green_background img = img\<lparr>data := map remove_green_pixel (data img)\<rparr>"
  by (simp add: remove_green_background_def convert_RGBA_def)

text \<open>
  C8: the per-pixel transform is idempotent; a pixel already made transparent,
  \<open>(0, 0, 0, 0)\<close>, stays the same transparent pixel; so removing the background of
  an image twice gives what removing it once gives.
\<close>

theorem remove_green_idempotent:
  "remove_green_pixel (remove_green_pixel p) = remove_green_pixel p
   \<and> remove_green_pixel (0, 0, 0, 0) = (0, 0, 0, 0)
   \<and> remove_green_pixel (remove_green_pixel (0, 0, 0, 0)) = (0, 0, 0, 0)
   \<and> remove_green_background (remove_green_background img) = remove_green_background img"
proof -
  have px: "remove_green_pixel (0, 0, 0, 0) = (0, 0, 0, 0)"
    by (simp add: remove_green_pixel_def is_green_def is_dark_green_def)
  have "remove_green_background (remove_green_background img) = remove_green_background img"
    by (simp add: remove_green_background_RGBA [OF mode_remove_green_background] remove_green_pixel_idem)
       (simp add: remove_green_background_def Let_def remove_green_pixel_idem)
  with px remove_green_pixel_idem show ?thesis by simp
qed

section \<open>Properties of the analyzer\<close>

text \<open>
  A scan returns one line per coordinate, holding the pixel read there and its colour
  name, when every coordinate lies inside the image; otherwise \<open>getpixel\<close> raises.
\<close>

lemma horizontal_scan_exact:
  "horizontal_scan img xs =
     (if (\<forall>x \<in> set xs. x < width img) \<and> (xs = [] \<or> 700 < height img)
      then Inr (map (\<lambda>x. case getpixel img x 700 of
                            (r, g, b, a) \<Rightarrow> (x, r, g, b, color_type r g b)) xs)
      else Inl IndexError)"
proof (induction xs)
  case Nil
  show ?case by simp
next
  case (Cons x xs)
  obtain r g b a where px: "getpixel img x 700 = (r, g, b, a)"
    by (cases "getpixel img x 700") auto
  show ?case
    by (cases "x < width img \<and> 700 < height img")
       (auto simp: Cons.IH getpixel_checked_def px)
qed

lemma vertical_scan_exact:
  "vertical_scan img ys =
     (if (\<forall>y \<in> set ys. y < height img) \<and> (ys = [] \<or> 225 < width img)
      then Inr (map (\<lambda>y. case getpixel img 225 y of
                            (r, g, b, a) \<Rightarrow> (y, r, g, b, color_type r g b)) ys)
      else Inl IndexError)"
proof (induction ys)
  case Nil
  show ?case by simp
next
  case (Cons y ys)
  obtain r g b a where px: "getpixel img 225 y = (r, g, b, a)"
    by (cases "getpixel img 225 y") auto
  show ?case
    by (cases "y < height img \<and> 225 < width img")
       (auto simp: Cons.IH getpixel_checked_def px)
qed

lemma scan_ranges:
  "py_range0 900 10 = map (\<lambda>k. k * 10) [0..<90]"
  "py_range0 1300 20 = map (\<lambda>k. k * 20) [0..<65]"
  by (simp_all add: py_range0_def)

lemma across_inside: "(\<forall>x \<in> set (map (\<lambda>k. k * 10) [0..<90]). x < (w::nat)) \<longleftrightarrow> 890 < w"
proof
  assume inside: "\<forall>x \<in> set (map (\<lambda>k. k * 10) [0..<90]). x < w"
  then have each: "\<And>k. k < 90 \<Longrightarrow> k * 10 < w" by simp
  from each [of 89] show "890 < w" by simp
next
  assume "890 < w"
  then show "\<forall>x \<in> set (map (\<lambda>k. k * 10) [0..<90]). x < w" by auto
qed

lemma down_inside: "(\<forall>y \<in> set (map (\<lambda>k. k * 20) [0..<65]). y < (h::nat)) \<longleftrightarrow> 1280 < h"
proof
  assume inside: "\<forall>y \<in> set (map (\<lambda>k. k * 20) [0..<65]). y < h"
  then have each: "\<And>k. k < 65 \<Longrightarrow> k * 20 < h" by simp
  from each [of 64] show "1280 < h" by simp
next
  assume "1280 < h"
  then show "\<forall>y \<in> set (map (\<lambda>k. k * 20) [0..<65]). y < h" by auto
qed

lemma analyze_sprite_sheet_exact:
  "analyze_sprite_sheet img =
     (if 890 < width img \<and> 1280 < height img then
        Inr (map (\<lambda>x. case getpixel (convert_RGB img) x 700 of
                         (r, g, b, a) \<Rightarrow> (x, r, g, b, color_type r g b))
                 (map (\<lambda>k. k * 10) [0..<90])
             @ map (\<lambda>y. case getpixel (convert_RGB img) 225 y of
                           (r, g, b, a) \<Rightarrow> (y, r, g, b, color_type r g b))
                   (map (\<lambda>k. k * 20) [0..<65]))
      else Inl IndexError)"
proof -
  have size: "width (convert_RGB img) = width img" "height (convert_RGB img) = height img"
    by (simp_all add: convert_RGB_def)
  have nonempty: "map (\<lambda>k. k * 10) [0..<90] \<noteq> ([]::nat list)" "map (\<lambda>k. k * 20) [0..<65] \<noteq> ([]::nat list)"
    by simp_all
  show ?thesis
    unfolding analyze_sprite_sheet_def Let_def scan_ranges
      horizontal_scan_exact vertical_scan_exact size across_inside down_inside
    using nonempty by auto
qed

lemma getpixel_convert_RGB:
  assumes "well_formed img" "x < width img" "y < height img"
  shows "getpixel (convert_RGB img) x y = (case getpixel img x y of (r, g, b, a) \<Rightarrow> (r, g, b, 255))"
proof -
  from assms(3) have "Suc y * width img \<le> height img * width img"
    by (intro mult_le_mono1) simp
  with assms(2) have "y * width img + x < width img * height img"
    by (simp add: mult.commute)
  with assms(1) have "y * width img + x < length (data img)"
    by (simp add: well_formed_def)
  then show ?thesis
    by (simp add: getpixel_def convert_RGB_def)
qed

text \<open>
  C9: a sampled pixel is GREEN when \<open>g > r + 10\<close> and \<open>g > b + 5\<close>; otherwise WHITE
  when all three channels exceed 200; otherwise OTHER. A pixel that meets both the
  GREEN condition and the all-above-200 condition is GREEN, not WHITE. A run of the
  analyzer over a sheet that holds the sampled coordinates prints, for
  \<open>x = 0, 10, .., 890\<close> at \<open>y = 700\<close> and then for \<open>y = 0, 20, .., 1280\<close> at \<open>x = 225\<close>,
  the coordinate, the three channels of the pixel read there in the converted image,
  and the colour name of those three channels; on a smaller sheet the read raises.
  The converted image holds the colour channels of the sheet's own pixels.
\<close>

theorem color_type_order:
  "(g > r + 10 \<and> g > b + 5 \<longrightarrow> color_type r g b = ''GREEN'')
   \<and> (\<not> (g > r + 10 \<and> g > b + 5) \<and> r > 200 \<and> g > 200 \<and> b > 200 \<longrightarrow> color_type r g b = ''WHITE'')
   \<and> (\<not> (g > r + 10 \<and> g > b + 5) \<and> \<not> (r > 200 \<and> g > 200 \<and> b > 200) \<longrightarrow> color_type r g b = ''OTHER'')
   \<and> (g > r + 10 \<and> g > b + 5 \<and> r > 200 \<and> g > 200 \<and> b > 200 \<longrightarrow> color_type r g b \<noteq> ''WHITE'')
   \<and> analyze_sprite_sheet img =
       (if 890 < width img \<and> 1280 < height img then
          Inr (map (\<lambda>x. case getpixel (convert_RGB img) x 700 of
                           (r', g', b', a') \<Rightarrow>
                             (x, r', g', b',
                              if g' > r' + 10 \<and> g' > b' + 5 then ''GREEN''
                              else if r' > 200 \<and> g' > 200 \<and> b' > 200 then ''WHITE''
                              else ''OTHER''))
                   (map (\<lambda>k. k * 10) [0..<90])
               @ map (\<lambda>y. case getpixel (convert_RGB img) 225 y of
                             (r', g', b', a') \<Rightarrow>
                               (y, r', g', b',
                                if g' > r' + 10 \<and> g' > b' + 5 then ''GREEN''
                                else if r' > 200 \<and> g' > 200 \<and> b' > 200 then ''WHITE''
                                else ''OTHER''))
                     (map (\<lambda>k. k * 20) [0..<65]))
        else Inl IndexError)
   \<and> py_range0 900 10 = map (\<lambda>k. k * 10) [0..<90]
   \<and> py_range0 1300 20 = map (\<lambda>k. k * 20) [0..<65]
   \<and> (well_formed img \<and> x < width img \<and> y < height img \<longrightarrow>
        getpixel (convert_RGB img) x y
          = (case getpixel img x y of (r', g', b', a') \<Rightarrow> (r', g', b', 255)))"
proof -
  have colours: "(g > r + 10 \<and> g > b + 5 \<longrightarrow> color_type r g b = ''GREEN'')"
    "(\<not> (g > r + 10 \<and> g > b + 5) \<and> r > 200 \<and> g > 200 \<and> b > 200 \<longrightarrow> color_type r g b = ''WHITE'')"
    "(\<not> (g > r + 10 \<and> g > b + 5) \<and> \<not> (r > 200 \<and> g > 200 \<and> b > 200) \<longrightarrow> color_type r g b = ''OTHER'')"
    "(g > r + 10 \<and> g > b + 5 \<and> r > 200 \<and> g > 200 \<and> b > 200 \<longrightarrow> color_type r g b \<noteq> ''WHITE'')"
    by (simp_all add: color_type_def)
  have run: "analyze_sprite_sheet img =
       (if 890 < width img \<and> 1280 < height img then
          Inr (map (\<lambda>x. case getpixel (convert_RGB img) x 700 of
                           (r', g', b', a') \<Rightarrow>
                             (x, r', g', b',
                              if g' > r' + 10 \<and> g' > b' + 5 then ''GREEN''
                              else if r' > 200 \<and> g' > 200 \<and> b' > 200 then ''WHITE''
                              else ''OTHER''))
                   (map (\<lambda>k. k * 10) [0..<90])
               @ map (\<lambda>y. case getpixel (convert_RGB img) 225 y of
                             (r', g', b', a') \<Rightarrow>
                               (y, r', g', b',
                                if g' > r' + 10 \<and> g' > b' + 5 then ''GREEN''
                                else if r' > 200 \<and> g' > 200 \<and> b' > 200 then ''WHITE''
                                else ''OTHER''))
                     (map (\<lambda>k. k * 20) [0..<65]))
        else Inl IndexError)"
    unfolding analyze_sprite_sheet_exact color_type_def ..
  have conv: "well_formed img \<and> x < width img \<and> y < height img \<longrightarrow>
        getpixel (convert_RGB img) x y
          = (case getpixel img x y of (r', g', b', a') \<Rightarrow> (r', g', b', 255))"
    using getpixel_convert_RGB by blast
  from colours run scan_ranges conv show ?thesis by (intro conjI)
qed

text \<open>
  The three colours at concrete pixels, and the run over a 900 by 1300 sheet filled
  with the pale green \<open>(201, 255, 201)\<close>, which meets the GREEN condition and has all
  channels above 200: all 155 lines say GREEN.
\<close>

theorem color_type_order_witness:
  "color_type 201 255 201 = ''GREEN'' \<and> color_type 201 255 201 \<noteq> ''WHITE''
   \<and> color_type 255 255 255 = ''WHITE'' \<and> color_type 10 10 10 = ''OTHER''
   \<and> analyze_sprite_sheet
        \<lparr>mode = RGB, width = 900, height = 1300,
         data = replicate (900 * 1300) (201, 255, 201, 255)\<rparr>
      = Inr (map (\<lambda>x. (x, 201, 255, 201, ''GREEN'')) (map (\<lambda>k. k * 10) [0..<90])
             @ map (\<lambda>y. (y, 201, 255, 201, ''GREEN'')) (map (\<lambda>k. k * 20) [0..<65]))"
proof -
  let ?sheet = "\<lparr>mode = RGB, width = 900, height = 1300,
           data = replicate (900 * 1300) (201, 255, 201, 255)\<rparr>"
  have g: "color_type 201 255 201 = ''GREEN''" "color_type 201 255 201 \<noteq> ''WHITE''"
    using color_type_order [where r = 201 and g = 255 and b = 201] by simp_all
  have w: "color_type 255 255 255 = ''WHITE''"
    using color_type_order [where r = 255 and g = 255 and b = 255] by simp
  have o: "color_type 10 10 10 = ''OTHER''"
    using color_type_order [where r = 10 and g = 10 and b = 10] by simp
  have px: "getpixel (convert_RGB ?sheet) x y = (201, 255, 201, 255)"
    if "x < 900" "y < 1300" for x y
  proof -
    from that have "y * 900 + x < 900 * 1300" by simp
    then show ?thesis by (simp add: getpixel_def convert_RGB_def)
  qed
  have across: "map (\<lambda>x. case getpixel (convert_RGB ?sheet) x 700 of
                           (r', g', b', a') \<Rightarrow>
                             (x, r', g', b',
                              if g' > r' + 10 \<and> g' > b' + 5 then ''GREEN''
                              else if r' > 200 \<and> g' > 200 \<and> b' > 200 then ''WHITE''
                              else ''OTHER''))
                   (map (\<lambda>k. k * 10) [0..<90])
        = map (\<lambda>x. (x, 201, 255, 201, ''GREEN'')) (map (\<lambda>k. k * 10) [0..<90])"
  proof (rule map_cong [OF refl])
    fix x :: nat assume "x \<in> set (map (\<lambda>k. k * 10) [0..<90])"
    then have "x < 900" by auto
    with px [of x 700] show "(case getpixel (convert_RGB ?sheet) x 700 of
                           (r', g', b', a') \<Rightarrow>
                             (x, r', g', b',
                              if g' > r' + 10 \<and> g' > b' + 5 then ''GREEN''
                              else if r' > 200 \<and> g' > 200 \<and> b' > 200 then ''WHITE''
                              else ''OTHER'')) = (x, 201, 255, 201, ''GREEN'')"
      by simp
  qed
  have down: "map (\<lambda>y. case getpixel (convert_RGB ?sheet) 225 y of
                             (r', g', b', a') \<Rightarrow>
                               (y, r', g', b',
                                if g' > r' + 10 \<and> g' > b' + 5 then ''GREEN''
                                else if r' > 200 \<and> g' > 200 \<and> b' > 200 then ''WHITE''
                                else ''OTHER''))
                     (map (\<lambda>k. k * 20) [0..<65])
        = map (\<lambda>y. (y, 201, 255, 201, ''GREEN'')) (map (\<lambda>k. k * 20) [0..<65])"
  proof (rule map_cong [OF refl])
    fix y :: nat assume "y \<in> set (map (\<lambda>k. k * 20) [0..<65])"
    then have "y < 1300" by auto
    with px [of 225 y] show "(case getpixel (convert_RGB ?sheet) 225 y of
                             (r', g', b', a') \<Rightarrow>
                               (y, r', g', b',
                                if g' > r' + 10 \<and> g' > b' + 5 then ''GREEN''
                                else if r' > 200 \<and> g' > 200 \<and> b' > 200 then ''WHITE''
                                else ''OTHER'')) = (y, 201, 255, 201, ''GREEN'')"
      by simp
  qed
  have "analyze_sprite_sheet ?sheet
      = Inr (map (\<lambda>x. (x, 201, 255, 201, ''GREEN'')) (map (\<lambda>k. k * 10) [0..<90])
             @ map (\<lambda>y. (y, 201, 255, 201, ''GREEN'')) (map (\<lambda>k. k * 20) [0..<65]))"
    using color_type_order [where img = ?sheet, THEN conjunct2, THEN conjunct2, THEN conjunct2,
        THEN conjunct2, THEN conjunct1]
    unfolding across down by simp
  with g w o show ?thesis by simp
qed

section \<open>Properties of the grid table\<close>

lemma CARD_MAP_distinct: "distinct (concat CARD_MAP)"
  by code_simp

lemma CARD_MAP_shape: "length CARD_MAP = ROWS" "\<forall>names \<in> set CARD_MAP. length names = COLS"
  by (simp_all add: CARD_MAP_def ROWS_def COLS_def)

lemma concat_nth_rectangular:
  "\<forall>xs \<in> set xss. length xs = n \<Longrightarrow> r < length xss \<Longrightarrow> c < n \<Longrightarrow>
   concat xss ! (r * n + c) = xss ! r ! c"
proof (induction xss arbitrary: r)
  case Nil
  then show ?case by simp
next
  case (Cons xs xss)
  show ?case
  proof (cases r)
    case 0
    with Cons.prems show ?thesis by (simp add: nth_append)
  next
    case (Suc r')
    with Cons.prems have "concat xss ! (r' * n + c) = xss ! r' ! c"
      by (intro Cons.IH) auto
    with Suc Cons.prems show ?thesis by (simp add: nth_append)
  qed
qed

lemma length_concat_rectangular:
  "\<forall>xs \<in> set xss. length xs = n \<Longrightarrow> length (concat xss) = length xss * n"
  by (induction xss) auto

lemma CARD_MAP_length: "length (concat CARD_MAP) = 54"
  by code_simp

lemma CARD_MAP_cells_differ:
  assumes "row < ROWS" "col < COLS" "row' < ROWS" "col' < COLS" "(row, col) \<noteq> (row', col')"
  shows "CARD_MAP ! row ! col \<noteq> CARD_MAP ! row' ! col'"
proof
  assume same: "CARD_MAP ! row ! col = CARD_MAP ! row' ! col'"
  have i: "concat CARD_MAP ! (row * COLS + col) = CARD_MAP ! row ! col"
    using assms CARD_MAP_shape by (intro concat_nth_rectangular) auto
  have j: "concat CARD_MAP ! (row' * COLS + col') = CARD_MAP ! row' ! col'"
    using assms CARD_MAP_shape by (intro concat_nth_rectangular) auto
  have bi: "row * COLS + col < length (concat CARD_MAP)"
    and bj: "row' * COLS + col' < length (concat CARD_MAP)"
    using assms CARD_MAP_length by (simp_all add: ROWS_def COLS_def)
  from same i j have "concat CARD_MAP ! (row * COLS + col) = concat CARD_MAP ! (row' * COLS + col')"
    by simp
  with CARD_MAP_distinct bi bj have eq: "row * COLS + col = row' * COLS + col'"
    by (simp add: nth_eq_iff_index_eq)
  from eq assms(2,4) have "row = row' \<and> col = col'"
    unfolding COLS_def by presburger
  with assms(5) show False by simp
qed

lemma rank_suit_names_list:
  "(\<lambda>(rank, suit). rank @ ''_'' @ suit) ` (set CARD_NAMES \<times> set SUITS)
   = set (concat (map (\<lambda>suit. map (\<lambda>rank. rank @ ''_'' @ suit) CARD_NAMES) SUITS))"
  by auto

lemma CARD_MAP_names_list:
  "set (concat CARD_MAP)
   = set (concat (map (\<lambda>suit. map (\<lambda>rank. rank @ ''_'' @ suit) CARD_NAMES) SUITS) @ [''joker'', ''back''])"
  by code_simp

lemma CARD_MAP_names:
  "set (concat CARD_MAP)
   = (\<lambda>(rank, suit). rank @ ''_'' @ suit) ` (set CARD_NAMES \<times> set SUITS) \<union> {''joker'', ''back''}"
  unfolding rank_suit_names_list CARD_MAP_names_list by simp

text \<open>
  C5, as the code has it: the table has no duplicate entry. Two distinct grid positions
  never map to one name: the 54 cells carry 54 different names, which are the 52
  \<open><rank>_<suit>\<close> names, \<open>joker\<close> and \<open>back\<close>, and each ace and each 7 stands in
  exactly one cell.
\<close>

theorem CARD_MAP_no_duplicates:
  "(\<forall>row col row' col'. row < ROWS \<and> col < COLS \<and> row' < ROWS \<and> col' < COLS
        \<and> (row, col) \<noteq> (row', col')
      \<longrightarrow> CARD_MAP ! row ! col \<noteq> CARD_MAP ! row' ! col')
   \<and> distinct (concat CARD_MAP) \<and> length (concat CARD_MAP) = 54
   \<and> set (concat CARD_MAP)
       = (\<lambda>(rank, suit). rank @ ''_'' @ suit) ` (set CARD_NAMES \<times> set SUITS) \<union> {''joker'', ''back''}
   \<and> count_list (concat CARD_MAP) ''A_spades'' = 1 \<and> count_list (concat CARD_MAP) ''A_hearts'' = 1
   \<and> count_list (concat CARD_MAP) ''A_diamonds'' = 1 \<and> count_list (concat CARD_MAP) ''A_clubs'' = 1
   \<and> count_list (concat CARD_MAP) ''7_spades'' = 1 \<and> count_list (concat CARD_MAP) ''7_hearts'' = 1
   \<and> count_list (concat CARD_MAP) ''7_diamonds'' = 1 \<and> count_list (concat CARD_MAP) ''7_clubs'' = 1"
proof -
  have counts: "count_list (concat CARD_MAP) ''A_spades'' = 1" "count_list (concat CARD_MAP) ''A_hearts'' = 1"
    "count_list (concat CARD_MAP) ''A_diamonds'' = 1" "count_list (concat CARD_MAP) ''A_clubs'' = 1"
    "count_list (concat CARD_MAP) ''7_spades'' = 1" "count_list (concat CARD_MAP) ''7_hearts'' = 1"
    "count_list (concat CARD_MAP) ''7_diamonds'' = 1" "count_list (concat CARD_MAP) ''7_clubs'' = 1"
    by code_simp+
  from CARD_MAP_cells_differ CARD_MAP_distinct CARD_MAP_length CARD_MAP_names counts
  show ?thesis by blast
qed

lemma CARD_MAP_aces: "CARD_MAP ! 0 ! 4 = ''A_clubs''" "CARD_MAP ! 2 ! 4 = ''A_spades''"
  by code_simp+

text \<open>Two of the aces: row 0 has the ace of clubs, row 2 the ace of spades.\<close>

theorem CARD_MAP_no_duplicates_witness:
  "CARD_MAP ! 0 ! 4 = ''A_clubs'' \<and> CARD_MAP ! 2 ! 4 = ''A_spades''
   \<and> CARD_MAP ! 0 ! 4 \<noteq> CARD_MAP ! 2 ! 4"
proof -
  have "CARD_MAP ! 0 ! 4 \<noteq> CARD_MAP ! 2 ! 4"
    using CARD_MAP_no_duplicates [THEN conjunct1, rule_format, of 0 4 2 4]
    by (simp add: ROWS_def COLS_def)
  with CARD_MAP_aces show ?thesis by simp
qed

text \<open>
  C5 as stated asks for a name with two distinct grid positions in the table. There is
  none.
\<close>

theorem CARD_MAP_duplicate_refuted:
  "\<not> (\<exists>card_name row col row' col'. row < ROWS \<and> col < COLS \<and> row' < ROWS \<and> col' < COLS
        \<and> (row, col) \<noteq> (row', col')
        \<and> CARD_MAP ! row ! col = card_name \<and> CARD_MAP ! row' ! col' = card_name)"
  using CARD_MAP_cells_differ by blast

section \<open>Properties of the trimming step\<close>

lemma index_inside:
  assumes "well_formed img" "x < width img" "y < height img"
  shows "y * width img + x < length (data img)"
proof -
  from assms(3) have "Suc y * width img \<le> height img * width img"
    by (intro mult_le_mono1) simp
  with assms(2) have "y * width img + x < width img * height img"
    by (simp add: mult.commute)
  with assms(1) show ?thesis by (simp add: well_formed_def)
qed

lemma getpixel_in_data:
  "well_formed img \<Longrightarrow> x < width img \<Longrightarrow> y < height img \<Longrightarrow> getpixel img x y \<in> set (data img)"
  unfolding getpixel_def by (rule nth_mem) (rule index_inside)

lemma data_is_getpixel:
  assumes "well_formed img" "p \<in> set (data img)"
  shows "\<exists>x y. x < width img \<and> y < height img \<and> getpixel img x y = p"
proof -
  from assms(2) obtain i where i: "i < length (data img)" and p: "data img ! i = p"
    by (auto simp: in_set_conv_nth)
  from i assms(1) have bound: "i < width img * height img" by (simp add: well_formed_def)
  then have w: "0 < width img" by (cases "width img") auto
  have x: "i mod width img < width img" using w by simp
  have y: "i div width img < height img"
    using bound by (simp add: less_mult_imp_div_less mult.commute)
  have "getpixel img (i mod width img) (i div width img) = p"
    by (simp add: getpixel_def p)
  with x y show ?thesis by blast
qed

lemma column_has_content_iff:
  "column_has_content img x \<longleftrightarrow> (\<exists>y < height img. nonzero (mode img) (getpixel img x y))"
  by (auto simp: column_has_content_def list_ex_iff)

lemma row_has_content_iff:
  "row_has_content img y \<longleftrightarrow> (\<exists>x < width img. nonzero (mode img) (getpixel img x y))"
  by (auto simp: row_has_content_def list_ex_iff)

lemma sorted_between_hd_last:
  "sorted xs \<Longrightarrow> (x::nat) \<in> set xs \<Longrightarrow> hd xs \<le> x \<and> x \<le> last xs"
proof (induction xs)
  case Nil
  then show ?case by simp
next
  case (Cons a xs)
  show ?case
  proof (cases "xs = []")
    case True
    with Cons.prems show ?thesis by simp
  next
    case False
    then have "last xs \<in> set xs" by simp
    with Cons.prems have "a \<le> last xs" by auto
    with Cons False show ?thesis by auto
  qed
qed

text \<open>No box exactly when no pixel counts as content.\<close>

lemma getbbox_None_iff:
  assumes "well_formed img"
  shows "getbbox img = None \<longleftrightarrow> (\<forall>p \<in> set (data img). \<not> nonzero (mode img) p)"
proof
  assume none: "getbbox img = None"
  show "\<forall>p \<in> set (data img). \<not> nonzero (mode img) p"
  proof (rule ballI, rule notI)
    fix p assume "p \<in> set (data img)" and content: "nonzero (mode img) p"
    with assms obtain x y where xy: "x < width img" "y < height img" "getpixel img x y = p"
      using data_is_getpixel by blast
    with content have "column_has_content img x" "row_has_content img y"
      by (auto simp: column_has_content_iff row_has_content_iff)
    with xy have "filter (column_has_content img) [0..<width img] \<noteq> []"
      "filter (row_has_content img) [0..<height img] \<noteq> []"
      by (auto simp: filter_empty_conv)
    with none show False by (simp add: getbbox_def Let_def)
  qed
next
  assume blank: "\<forall>p \<in> set (data img). \<not> nonzero (mode img) p"
  have "\<not> column_has_content img x" if "x < width img" for x
    using blank that assms getpixel_in_data by (auto simp: column_has_content_iff)
  then have "filter (column_has_content img) [0..<width img] = []"
    by (auto simp: filter_empty_conv)
  then show "getbbox img = None" by (simp add: getbbox_def Let_def)
qed

text \<open>A box that is returned is the smallest one that holds all the content.\<close>

lemma getbbox_Some:
  assumes box: "getbbox img = Some (left, upper, right, lower)"
  shows "left < right" "right \<le> width img" "upper < lower" "lower \<le> height img"
    and "\<And>x y. x < width img \<Longrightarrow> y < height img \<Longrightarrow> nonzero (mode img) (getpixel img x y)
           \<Longrightarrow> left \<le> x \<and> x < right \<and> upper \<le> y \<and> y < lower"
    and "\<exists>y < height img. nonzero (mode img) (getpixel img left y)"
    and "\<exists>y < height img. nonzero (mode img) (getpixel img (right - 1) y)"
    and "\<exists>x < width img. nonzero (mode img) (getpixel img x upper)"
    and "\<exists>x < width img. nonzero (mode img) (getpixel img x (lower - 1))"
proof -
  let ?xs = "filter (column_has_content img) [0..<width img]"
  let ?ys = "filter (row_has_content img) [0..<height img]"
  from box have xs: "?xs \<noteq> []" and ys: "?ys \<noteq> []"
    and l: "left = hd ?xs" and u: "upper = hd ?ys"
    and r: "right = Suc (last ?xs)" and lo: "lower = Suc (last ?ys)"
    by (auto simp: getbbox_def Let_def split: if_splits)
  have sx: "sorted ?xs" and sy: "sorted ?ys" by (simp_all add: sorted_wrt_filter)
  from xs have hx: "hd ?xs \<in> set ?xs" and lx: "last ?xs \<in> set ?xs" by (simp_all del: set_filter)
  from ys have hy: "hd ?ys \<in> set ?ys" and ly: "last ?ys \<in> set ?ys" by (simp_all del: set_filter)
  from sorted_between_hd_last [OF sx lx] show "left < right" by (simp add: l r)
  from lx show "right \<le> width img" by (simp add: r)
  from sorted_between_hd_last [OF sy ly] show "upper < lower" by (simp add: u lo)
  from ly show "lower \<le> height img" by (simp add: lo)
  show "left \<le> x \<and> x < right \<and> upper \<le> y \<and> y < lower"
    if "x < width img" "y < height img" "nonzero (mode img) (getpixel img x y)" for x y
  proof -
    from that have "x \<in> set ?xs" "y \<in> set ?ys"
      by (auto simp: column_has_content_iff row_has_content_iff)
    from sorted_between_hd_last [OF sx this(1)] sorted_between_hd_last [OF sy this(2)]
    show ?thesis by (simp add: l u r lo)
  qed
  from hx show "\<exists>y < height img. nonzero (mode img) (getpixel img left y)"
    by (simp add: l [symmetric] column_has_content_iff)
  from lx show "\<exists>y < height img. nonzero (mode img) (getpixel img (right - 1) y)"
    by (simp add: r column_has_content_iff)
  from hy show "\<exists>x < width img. nonzero (mode img) (getpixel img x upper)"
    by (simp add: u [symmetric] row_has_content_iff)
  from ly show "\<exists>x < width img. nonzero (mode img) (getpixel img x (lower - 1))"
    by (simp add: lo row_has_content_iff)
qed

text \<open>A crop has the size of its box and holds the pixels of the box.\<close>

lemma crop_size:
  "mode (crop (left, upper, right, lower) img) = mode img"
  "width (crop (left, upper, right, lower) img) = right - left"
  "height (crop (left, upper, right, lower) img) = lower - upper"
  by (simp_all add: crop_def)

lemma well_formed_crop: "well_formed (crop box img)"
proof -
  obtain left upper right lower where box: "box = (left, upper, right, lower)"
    by (cases box) auto
  have "length (concat (map (\<lambda>y. map (\<lambda>x. pixel_or_zero img (left + x) (upper + y))
                                        [0..<right - left])
                            [0..<lower - upper])) = (lower - upper) * (right - left)"
    by (subst length_concat_rectangular [where n = "right - left"]) auto
  then show ?thesis by (simp add: box well_formed_def crop_def mult.commute)
qed

lemma getpixel_crop:
  assumes "x < right - left" "y < lower - upper"
  shows "getpixel (crop (left, upper, right, lower) img) x y = pixel_or_zero img (left + x) (upper + y)"
proof -
  let ?rows = "map (\<lambda>y. map (\<lambda>x. pixel_or_zero img (left + x) (upper + y)) [0..<right - left])
                   [0..<lower - upper]"
  have "concat ?rows ! (y * (right - left) + x) = ?rows ! y ! x"
    using assms by (intro concat_nth_rectangular) auto
  with assms show ?thesis by (simp add: getpixel_def crop_def)
qed

lemma nonzero_RGBA: "nonzero RGBA p \<longleftrightarrow> alpha p \<noteq> 0"
  by (cases p) (simp add: nonzero_def alpha_def)

lemma well_formed_remove_green_background:
  "well_formed img \<Longrightarrow> well_formed (remove_green_background img)"
  by (cases "mode img")
     (simp_all add: well_formed_def remove_green_background_def convert_RGBA_def Let_def)

text \<open>
  C7: take an image with an alpha channel whose pixel list fits its size (every card the
  slicer hands to the trimming step is one: the last conjunct). If all its pixels are
  fully transparent there is no bounding box, and the trimming step returns the image
  unchanged. If at least one pixel is not transparent, the step returns the crop to the
  bounding box \<open>(left, upper, right, lower)\<close> of the non-transparent pixels: the box
  lies inside the image, holds every non-transparent pixel, and each of its four sides
  touches one; the result has the size of the box and, at \<open>(x, y)\<close>, the pixel of the
  image at \<open>(left + x, upper + y)\<close>.
\<close>

theorem crop_transparent_borders_bounding_box:
  "(well_formed img \<and> mode img = RGBA \<and> (\<forall>p \<in> set (data img). alpha p = 0) \<longrightarrow>
      getbbox img = None \<and> crop_transparent_borders img = img)
   \<and> (well_formed img \<and> mode img = RGBA \<and> (\<exists>p \<in> set (data img). alpha p \<noteq> 0) \<longrightarrow>
      (\<exists>left upper right lower.
         getbbox img = Some (left, upper, right, lower)
       \<and> crop_transparent_borders img = crop (left, upper, right, lower) img
       \<and> left < right \<and> right \<le> width img \<and> upper < lower \<and> lower \<le> height img
       \<and> (\<forall>x y. x < width img \<and> y < height img \<and> alpha (getpixel img x y) \<noteq> 0 \<longrightarrow>
             left \<le> x \<and> x < right \<and> upper \<le> y \<and> y < lower)
       \<and> (\<exists>y < height img. alpha (getpixel img left y) \<noteq> 0)
       \<and> (\<exists>y < height img. alpha (getpixel img (right - 1) y) \<noteq> 0)
       \<and> (\<exists>x < width img. alpha (getpixel img x upper) \<noteq> 0)
       \<and> (\<exists>x < width img. alpha (getpixel img x (lower - 1)) \<noteq> 0)
       \<and> mode (crop_transparent_borders img) = RGBA
       \<and> width (crop_transparent_borders img) = right - left
       \<and> height (crop_transparent_borders img) = lower - upper
       \<and> well_formed (crop_transparent_borders img)
       \<and> (\<forall>x y. x < right - left \<and> y < lower - upper \<longrightarrow>
             getpixel (crop_transparent_borders img) x y = getpixel img (left + x) (upper + y))))
   \<and> mode (remove_green_background (crop box sprite_sheet)) = RGBA
   \<and> well_formed (remove_green_background (crop box sprite_sheet))"
proof (intro conjI impI)
  assume blank: "well_formed img \<and> mode img = RGBA \<and> (\<forall>p \<in> set (data img). alpha p = 0)"
  then have "getbbox img = None"
    by (simp add: getbbox_None_iff nonzero_RGBA)
  then show "getbbox img = None" "crop_transparent_borders img = img"
    by (simp_all add: crop_transparent_borders_def)
next
  assume content: "well_formed img \<and> mode img = RGBA \<and> (\<exists>p \<in> set (data img). alpha p \<noteq> 0)"
  then have wf: "well_formed img" and rgba: "mode img = RGBA" by simp_all
  from content have "getbbox img \<noteq> None"
    by (simp add: getbbox_None_iff nonzero_RGBA)
  then obtain left upper right lower where box: "getbbox img = Some (left, upper, right, lower)"
    by (cases "getbbox img") auto
  note facts = getbbox_Some [OF box, unfolded rgba nonzero_RGBA]
  have trimmed: "crop_transparent_borders img = crop (left, upper, right, lower) img"
    by (simp add: crop_transparent_borders_def box)
  have inside: "\<forall>x y. x < width img \<and> y < height img \<and> alpha (getpixel img x y) \<noteq> 0 \<longrightarrow>
             left \<le> x \<and> x < right \<and> upper \<le> y \<and> y < lower"
    using facts(5) by blast
  have pixels: "\<forall>x y. x < right - left \<and> y < lower - upper \<longrightarrow>
             getpixel (crop_transparent_borders img) x y = getpixel img (left + x) (upper + y)"
  proof (intro allI impI)
    fix x y assume xy: "x < right - left \<and> y < lower - upper"
    with facts(2,4) have "left + x < width img" "upper + y < height img" by linarith+
    with xy show "getpixel (crop_transparent_borders img) x y = getpixel img (left + x) (upper + y)"
      by (simp add: trimmed getpixel_crop pixel_or_zero_def)
  qed
  have size: "mode (crop_transparent_borders img) = RGBA"
    "width (crop_transparent_borders img) = right - left"
    "height (crop_transparent_borders img) = lower - upper"
    "well_formed (crop_transparent_borders img)"
    by (simp_all add: trimmed crop_size rgba well_formed_crop)
  from box trimmed facts(1-4) inside facts(6-9) size pixels
  show "\<exists>left upper right lower.
         getbbox img = Some (left, upper, right, lower)
       \<and> crop_transparent_borders img = crop (left, upper, right, lower) img
       \<and> left < right \<and> right \<le> width img \<and> upper < lower \<and> lower \<le> height img
       \<and> (\<forall>x y. x < width img \<and> y < height img \<and> alpha (getpixel img x y) \<noteq> 0 \<longrightarrow>
             left \<le> x \<and> x < right \<and> upper \<le> y \<and> y < lower)
       \<and> (\<exists>y < height img. alpha (getpixel img left y) \<noteq> 0)
       \<and> (\<exists>y < height img. alpha (getpixel img (right - 1) y) \<noteq> 0)
       \<and> (\<exists>x < width img. alpha (getpixel img x upper) \<noteq> 0)
       \<and> (\<exists>x < width img. alpha (getpixel img x (lower - 1)) \<noteq> 0)
       \<and> mode (crop_transparent_borders img) = RGBA
       \<and> width (crop_transparent_borders img) = right - left
       \<and> height (crop_transparent_borders img) = lower - upper
       \<and> well_formed (crop_transparent_borders img)
       \<and> (\<forall>x y. x < right - left \<and> y < lower - upper \<longrightarrow>
             getpixel (crop_transparent_borders img) x y = getpixel img (left + x) (upper + y))"
    by blast
next
  show "mode (remove_green_background (crop box sprite_sheet)) = RGBA"
    by (rule mode_remove_green_background)
  show "well_formed (remove_green_background (crop box sprite_sheet))"
    by (rule well_formed_remove_green_background) (rule well_formed_crop)
qed

text \<open>
  A blank cell of two pixels, and a cell of three by three pixels whose opaque pixels
  are the one in the middle and the one right of it.
\<close>

lemma trim_examples:
  "getbbox \<lparr>mode = RGBA, width = 3, height = 3,
           data = [(0, 0, 0, 0), (0, 0, 0, 0), (0, 0, 0, 0),
                   (9, 9, 9, 0), (255, 255, 255, 255), (200, 0, 0, 255),
                   (0, 0, 0, 0), (0, 0, 0, 0), (0, 0, 0, 0)]\<rparr> = Some (1, 1, 3, 2)"
  "crop (1, 1, 3, 2) \<lparr>mode = RGBA, width = 3, height = 3,
           data = [(0, 0, 0, 0), (0, 0, 0, 0), (0, 0, 0, 0),
                   (9, 9, 9, 0), (255, 255, 255, 255), (200, 0, 0, 255),
                   (0, 0, 0, 0), (0, 0, 0, 0), (0, 0, 0, 0)]\<rparr>
     = \<lparr>mode = RGBA, width = 2, height = 1, data = [(255, 255, 255, 255), (200, 0, 0, 255)]\<rparr>"
  by code_simp+

theorem crop_transparent_borders_bounding_box_witness:
  "crop_transparent_borders \<lparr>mode = RGBA, width = 2, height = 1, data = [(0, 0, 0, 0), (7, 7, 7, 0)]\<rparr>
     = \<lparr>mode = RGBA, width = 2, height = 1, data = [(0, 0, 0, 0), (7, 7, 7, 0)]\<rparr>
   \<and> crop_transparent_borders
        \<lparr>mode = RGBA, width = 3, height = 3,
         data = [(0, 0, 0, 0), (0, 0, 0, 0), (0, 0, 0, 0),
                 (9, 9, 9, 0), (255, 255, 255, 255), (200, 0, 0, 255),
                 (0, 0, 0, 0), (0, 0, 0, 0), (0, 0, 0, 0)]\<rparr>
     = \<lparr>mode = RGBA, width = 2, height = 1, data = [(255, 255, 255, 255), (200, 0, 0, 255)]\<rparr>"
proof -
  let ?blank = "\<lparr>mode = RGBA, width = 2, height = 1, data = [(0, 0, 0, 0), (7, 7, 7, 0)]\<rparr>"
  let ?cell = "\<lparr>mode = RGBA, width = 3, height = 3,
         data = [(0, 0, 0, 0), (0, 0, 0, 0), (0, 0, 0, 0),
                 (9, 9, 9, 0), (255, 255, 255, 255), (200, 0, 0, 255),
                 (0, 0, 0, 0), (0, 0, 0, 0), (0, 0, 0, 0)]\<rparr>"
  have "well_formed ?blank \<and> mode ?blank = RGBA \<and> (\<forall>p \<in> set (data ?blank). alpha p = 0)"
    by (simp add: well_formed_def alpha_def)
  with crop_transparent_borders_bounding_box [of ?blank]
  have blank: "crop_transparent_borders ?blank = ?blank" by blast
  have "well_formed ?cell \<and> mode ?cell = RGBA \<and> (\<exists>p \<in> set (data ?cell). alpha p \<noteq> 0)"
    by (simp add: well_formed_def alpha_def)
  with crop_transparent_borders_bounding_box [of ?cell]
  obtain left upper right lower where "getbbox ?cell = Some (left, upper, right, lower)"
    and "crop_transparent_borders ?cell = crop (left, upper, right, lower) ?cell"
    by blast
  with trim_examples have "crop_transparent_borders ?cell
      = \<lparr>mode = RGBA, width = 2, height = 1, data = [(255, 255, 255, 255), (200, 0, 0, 255)]\<rparr>"
    by simp
  with blank show ?thesis by simp
qed

section \<open>Properties of the slicer's loops\<close>

text \<open>
  When the table has a name for every cell visited, the two loops are one pass of the
  loop body over the cells in row-major order.
\<close>

lemma cell_name_name_of:
  "cell_name card_map cell = Inr card_name \<Longrightarrow> name_of card_map cell = card_name"
  by (simp add: name_of_def)

lemma slice_row_foldl:
  "\<forall>col \<in> set cols. \<exists>card_name. cell_name card_map (row, col) = Inr card_name \<Longrightarrow>
   slice_row card_map sheet row cols st =
     Inr (foldl (\<lambda>st cell. save_unique st (name_of card_map cell) (cell_card sheet cell)) st
            (map (\<lambda>col. (row, col)) cols))"
proof (induction cols arbitrary: st)
  case Nil
  show ?case by simp
next
  case (Cons col cols)
  from Cons.prems obtain card_name where n: "cell_name card_map (row, col) = Inr card_name"
    by auto
  from Cons.prems have rest: "\<forall>col \<in> set cols. \<exists>card_name. cell_name card_map (row, col) = Inr card_name"
    by simp
  show ?case
    by (simp add: slice_cell_def Let_def n cell_name_name_of [OF n] Cons.IH [OF rest])
qed

lemma slice_rows_foldl:
  "\<forall>row \<in> set rows. \<forall>col \<in> set [0..<ncols]. \<exists>card_name. cell_name card_map (row, col) = Inr card_name \<Longrightarrow>
   slice_rows card_map sheet ncols rows st =
     Inr (foldl (\<lambda>st cell. save_unique st (name_of card_map cell) (cell_card sheet cell)) st
            (concat (map (\<lambda>row. map (\<lambda>col. (row, col)) [0..<ncols]) rows)))"
proof (induction rows arbitrary: st)
  case Nil
  show ?case by simp
next
  case (Cons row rows)
  from Cons.prems have first: "\<forall>col \<in> set [0..<ncols]. \<exists>card_name. cell_name card_map (row, col) = Inr card_name"
    and rest: "\<forall>row \<in> set rows. \<forall>col \<in> set [0..<ncols]. \<exists>card_name. cell_name card_map (row, col) = Inr card_name"
    by simp_all
  show ?case
    by (simp add: slice_row_foldl [OF first] Cons.IH [OF rest])
qed

lemma slice_grid_save_cards:
  assumes "\<forall>cell \<in> set (grid_cells nrows ncols). \<exists>card_name. cell_name card_map cell = Inr card_name"
  shows "slice_grid card_map nrows ncols sheet fs =
     Inr (save_cards fs (map (\<lambda>cell. (name_of card_map cell, cell_card sheet cell))
                            (grid_cells nrows ncols)))"
proof -
  from assms have named: "\<forall>row \<in> set [0..<nrows]. \<forall>col \<in> set [0..<ncols].
      \<exists>card_name. cell_name card_map (row, col) = Inr card_name"
    by (auto simp: grid_cells_def)
  show ?thesis
    unfolding slice_grid_def slice_rows_foldl [OF named] save_cards_def grid_cells_def
    by (simp add: foldl_map)
qed

text \<open>The state after the loop body has run over a list of (name, card) pairs.\<close>

lemma save_cards_snoc:
  "save_cards fs (cards @ [(card_name, card')]) = save_unique (save_cards fs cards) card_name card'"
  by (simp add: save_cards_def)

lemma first_occurrence_append:
  "j < length names \<Longrightarrow> first_occurrence (names @ others) j = first_occurrence names j"
  by (simp add: first_occurrence_def nth_append)

lemma first_occurrence_last:
  "first_occurrence (names @ [card_name]) (length names) \<longleftrightarrow> card_name \<notin> set names"
  by (simp add: first_occurrence_def)

lemma save_cards_state:
  "seen_cards (save_cards fs cards) = set (map fst cards)
   \<and> printed (save_cards fs cards) =
       map (\<lambda>j. if first_occurrence (map fst cards) j
                then Saved (fst (cards ! j) @ ''.png'') (width (snd (cards ! j))) (height (snd (cards ! j)))
                else Skipped_duplicate (fst (cards ! j)))
           [0..<length cards]
   \<and> saves (save_cards fs cards) =
       map (\<lambda>j. (output_path_of (fst (cards ! j)), snd (cards ! j)))
           (filter (first_occurrence (map fst cards)) [0..<length cards])
   \<and> card_count (save_cards fs cards) = length (saves (save_cards fs cards))
   \<and> files (save_cards fs cards) =
       foldl (\<lambda>m (path, card'). m(path \<mapsto> card')) fs (saves (save_cards fs cards))"
proof (induction cards rule: rev_induct)
  case Nil
  show ?case by (simp add: save_cards_def)
next
  case (snoc pair cards)
  obtain card_name card' where pair: "pair = (card_name, card')" by (cases pair) auto
  define line where "line = (\<lambda>(cs :: (string \<times> image) list) j.
      if first_occurrence (map fst cs) j
      then Saved (fst (cs ! j) @ ''.png'') (width (snd (cs ! j))) (height (snd (cs ! j)))
      else Skipped_duplicate (fst (cs ! j)))"
  define call where "call = (\<lambda>(cs :: (string \<times> image) list) j.
      (output_path_of (fst (cs ! j)), snd (cs ! j)))"
  define names where "names = map fst cards"
  define cs where "cs = cards @ [(card_name, card')]"
  define st where "st = save_cards fs cards"
  let ?n = "length cards"
  from snoc.IH have seen: "seen_cards st = set names"
    and lines: "printed st = map (line cards) [0..<?n]"
    and calls: "saves st = map (call cards) (filter (first_occurrence names) [0..<?n])"
    and count: "card_count st = length (saves st)"
    and fs: "files st = foldl (\<lambda>m (path, card'). m(path \<mapsto> card')) fs (saves st)"
    unfolding line_def call_def names_def st_def by blast+
  have names_cs: "map fst cs = names @ [card_name]"
    by (simp add: cs_def names_def)
  have len_names: "length names = ?n"
    by (simp add: names_def)
  have upt: "[0..<length cs] = [0..<?n] @ [?n]"
    by (simp add: cs_def)
  have old_lines: "map (line cs) [0..<?n] = map (line cards) [0..<?n]"
    by (rule map_cong [OF refl])
       (simp add: line_def names_cs names_def [symmetric] first_occurrence_append len_names,
        simp add: cs_def nth_append)
  have old_first: "filter (first_occurrence (map fst cs)) [0..<?n]
      = filter (first_occurrence names) [0..<?n]"
    by (rule filter_cong [OF refl]) (simp add: names_cs first_occurrence_append len_names)
  have old_calls: "map (call cs) (filter (first_occurrence names) [0..<?n])
      = map (call cards) (filter (first_occurrence names) [0..<?n])"
    by (rule map_cong [OF refl]) (simp add: call_def cs_def nth_append)
  have last_first: "first_occurrence (map fst cs) ?n \<longleftrightarrow> card_name \<notin> set names"
    using first_occurrence_last [of names card_name] by (simp add: names_cs len_names)
  have last_pair: "cs ! ?n = (card_name, card')"
    by (simp add: cs_def)
  have next_state: "save_cards fs cs = save_unique st card_name card'"
    by (simp add: cs_def st_def save_cards_snoc)
  have goal: "seen_cards (save_cards fs cs) = set (map fst cs)
   \<and> printed (save_cards fs cs) = map (line cs) [0..<length cs]
   \<and> saves (save_cards fs cs) = map (call cs) (filter (first_occurrence (map fst cs)) [0..<length cs])
   \<and> card_count (save_cards fs cs) = length (saves (save_cards fs cs))
   \<and> files (save_cards fs cs) =
       foldl (\<lambda>m (path, card'). m(path \<mapsto> card')) fs (saves (save_cards fs cs))"
  proof (cases "card_name \<in> set names")
    case True
    then have step: "save_cards fs cs = st\<lparr>printed := printed st @ [Skipped_duplicate card_name]\<rparr>"
      by (simp add: next_state save_unique_def seen)
    have new_line: "line cs ?n = Skipped_duplicate card_name"
      using True last_first by (simp add: line_def last_pair)
    have c1: "seen_cards (save_cards fs cs) = set (map fst cs)"
      using True by (auto simp: step seen names_cs)
    have c2: "printed (save_cards fs cs) = map (line cs) [0..<length cs]"
      by (simp add: step lines upt old_lines new_line)
    have c3: "saves (save_cards fs cs)
        = map (call cs) (filter (first_occurrence (map fst cs)) [0..<length cs])"
      using True by (simp add: step calls upt old_first old_calls last_first)
    have c4: "card_count (save_cards fs cs) = length (saves (save_cards fs cs))"
      by (simp add: step count)
    have c5: "files (save_cards fs cs) =
       foldl (\<lambda>m (path, card'). m(path \<mapsto> card')) fs (saves (save_cards fs cs))"
      by (simp add: step fs)
    from c1 c2 c3 c4 c5 show ?thesis by blast
  next
    case False
    then have step: "save_cards fs cs
        = st\<lparr>seen_cards := insert card_name (seen_cards st),
              files := (files st)(output_path_of card_name \<mapsto> card'),
              saves := saves st @ [(output_path_of card_name, card')],
              card_count := card_count st + 1,
              printed := printed st @ [Saved (card_name @ ''.png'') (width card') (height card')]\<rparr>"
      by (simp add: next_state save_unique_def seen Let_def output_path_of_def)
    have new_line: "line cs ?n = Saved (card_name @ ''.png'') (width card') (height card')"
      using False last_first by (simp add: line_def last_pair)
    have new_call: "call cs ?n = (output_path_of card_name, card')"
      by (simp add: call_def last_pair)
    have c1: "seen_cards (save_cards fs cs) = set (map fst cs)"
      by (simp add: step seen names_cs)
    have c2: "printed (save_cards fs cs) = map (line cs) [0..<length cs]"
      by (simp add: step lines upt old_lines new_line)
    have c3: "saves (save_cards fs cs)
        = map (call cs) (filter (first_occurrence (map fst cs)) [0..<length cs])"
      using False by (simp add: step calls upt old_first old_calls last_first new_call)
    have c4: "card_count (save_cards fs cs) = length (saves (save_cards fs cs))"
      by (simp add: step count)
    have c5: "files (save_cards fs cs) =
       foldl (\<lambda>m (path, card'). m(path \<mapsto> card')) fs (saves (save_cards fs cs))"
      by (simp add: step fs [symmetric])
    from c1 c2 c3 c4 c5 show ?thesis by blast
  qed
  then show ?case
    unfolding line_def call_def cs_def pair by blast
qed

lemma save_cards_zip:
  assumes len: "length names = length cards"
  shows "seen_cards (save_cards fs (zip names cards)) = set names"
    and "printed (save_cards fs (zip names cards)) =
       map (\<lambda>j. if first_occurrence names j
                then Saved (names ! j @ ''.png'') (width (cards ! j)) (height (cards ! j))
                else Skipped_duplicate (names ! j))
           [0..<length names]"
    and "saves (save_cards fs (zip names cards)) =
       map (\<lambda>j. (output_path_of (names ! j), cards ! j)) (filter (first_occurrence names) [0..<length names])"
    and "card_count (save_cards fs (zip names cards)) = length (saves (save_cards fs (zip names cards)))"
    and "files (save_cards fs (zip names cards)) =
       foldl (\<lambda>m (path, card'). m(path \<mapsto> card')) fs (saves (save_cards fs (zip names cards)))"
proof -
  let ?cs = "zip names cards"
  have names: "map fst ?cs = names" using len by simp
  have n: "length ?cs = length names" using len by simp
  note state = save_cards_state [of fs ?cs, unfolded names n]
  from state show "seen_cards (save_cards fs ?cs) = set names" by blast
  from state have "printed (save_cards fs ?cs) =
       map (\<lambda>j. if first_occurrence names j
                then Saved (fst (?cs ! j) @ ''.png'') (width (snd (?cs ! j))) (height (snd (?cs ! j)))
                else Skipped_duplicate (fst (?cs ! j)))
           [0..<length names]" by blast
  also have "\<dots> = map (\<lambda>j. if first_occurrence names j
                then Saved (names ! j @ ''.png'') (width (cards ! j)) (height (cards ! j))
                else Skipped_duplicate (names ! j))
           [0..<length names]"
    by (rule map_cong [OF refl]) (simp add: len)
  finally show "printed (save_cards fs ?cs) =
       map (\<lambda>j. if first_occurrence names j
                then Saved (names ! j @ ''.png'') (width (cards ! j)) (height (cards ! j))
                else Skipped_duplicate (names ! j))
           [0..<length names]" .
  from state have "saves (save_cards fs ?cs) =
       map (\<lambda>j. (output_path_of (fst (?cs ! j)), snd (?cs ! j)))
           (filter (first_occurrence names) [0..<length names])" by blast
  also have "\<dots> = map (\<lambda>j. (output_path_of (names ! j), cards ! j))
           (filter (first_occurrence names) [0..<length names])"
    by (rule map_cong [OF refl]) (simp add: len)
  finally show "saves (save_cards fs ?cs) =
       map (\<lambda>j. (output_path_of (names ! j), cards ! j)) (filter (first_occurrence names) [0..<length names])" .
  from state show "card_count (save_cards fs ?cs) = length (saves (save_cards fs ?cs))" by blast
  from state show "files (save_cards fs ?cs) =
       foldl (\<lambda>m (path, card'). m(path \<mapsto> card')) fs (saves (save_cards fs ?cs))" by blast
qed

lemma map_pair_zip: "map (\<lambda>x. (f x, g x)) xs = zip (map f xs) (map g xs)"
  by (induction xs) simp_all

text \<open>First and later occurrences of a name.\<close>

lemma later_occurrence:
  "i < j \<Longrightarrow> j < length names \<Longrightarrow> names ! i = names ! j \<Longrightarrow> \<not> first_occurrence names j"
  by (auto simp: first_occurrence_def in_set_conv_nth intro!: exI [of _ i])

lemma first_occurrence_unique:
  assumes "i < length names" "j < length names" "first_occurrence names i" "first_occurrence names j"
    "names ! i = names ! j"
  shows "i = j"
proof (rule ccontr)
  assume "i \<noteq> j"
  then consider "i < j" | "j < i" by linarith
  then show False
  proof cases
    case 1
    from later_occurrence [OF 1 assms(2) assms(5)] assms(4) show False by simp
  next
    case 2
    from later_occurrence [OF 2 assms(1) assms(5) [symmetric]] assms(3) show False by simp
  qed
qed

lemma first_occurrence_exists:
  assumes "j < length names"
  shows "\<exists>i\<le>j. names ! i = names ! j \<and> first_occurrence names i"
proof -
  define i where "i = (LEAST k. names ! k = names ! j)"
  have same: "names ! i = names ! j"
    unfolding i_def by (rule LeastI [of "\<lambda>k. names ! k = names ! j" j]) simp
  have le: "i \<le> j"
    unfolding i_def by (rule Least_le) simp
  have "first_occurrence names i"
  proof (rule ccontr)
    assume "\<not> first_occurrence names i"
    then obtain k where k: "k < i" "names ! k = names ! i"
      using le assms by (auto simp: first_occurrence_def in_set_conv_nth)
    from k(2) same have "names ! k = names ! j" by simp
    then have "i \<le> k" unfolding i_def by (rule Least_le)
    with k(1) show False by simp
  qed
  with same le show ?thesis by blast
qed

lemma distinct_first_occurrence:
  assumes "distinct names" "j < length names"
  shows "first_occurrence names j"
proof (rule ccontr)
  assume "\<not> first_occurrence names j"
  then obtain k where k: "k < j" "names ! k = names ! j"
    using assms(2) by (auto simp: first_occurrence_def in_set_conv_nth)
  with assms have "k = j" by (simp add: nth_eq_iff_index_eq)
  with k(1) show False by simp
qed

text \<open>Different names are saved at different paths.\<close>

lemma OUTPUT_DIR_inj: "inj (path_join OUTPUT_DIR)"
  by (rule path_join_inj) (simp_all add: OUTPUT_DIR_def)

lemma output_path_of_inj: "output_path_of a = output_path_of b \<Longrightarrow> a = b"
  using injD [OF OUTPUT_DIR_inj, of "a @ ''.png''" "b @ ''.png''"] by (simp add: output_path_of_def)

lemma distinct_saved_paths:
  "distinct (map (\<lambda>j. output_path_of (names ! j)) (filter (first_occurrence names) [0..<length names]))"
proof -
  have "inj_on (\<lambda>j. output_path_of (names ! j)) (set (filter (first_occurrence names) [0..<length names]))"
  proof (rule inj_onI)
    fix i j
    assume i: "i \<in> set (filter (first_occurrence names) [0..<length names])"
      and j: "j \<in> set (filter (first_occurrence names) [0..<length names])"
      and eq: "output_path_of (names ! i) = output_path_of (names ! j)"
    from eq have "names ! i = names ! j" by (rule output_path_of_inj)
    with i j show "i = j" by (intro first_occurrence_unique [of i names j]) simp_all
  qed
  then show ?thesis by (simp add: distinct_map)
qed

text \<open>The files after a list of writes at pairwise different paths.\<close>

lemma files_unwritten:
  "path \<notin> fst ` set writes \<Longrightarrow>
   foldl (\<lambda>m (path, card'). m(path \<mapsto> card')) fs writes path = fs path"
  by (induction writes arbitrary: fs) auto

lemma files_written:
  "distinct (map fst writes) \<Longrightarrow> (path, card') \<in> set writes \<Longrightarrow>
   foldl (\<lambda>m (path, card'). m(path \<mapsto> card')) fs writes path = Some card'"
proof (induction writes arbitrary: fs)
  case Nil
  then show ?case by simp
next
  case (Cons w writes)
  show ?case
  proof (cases "w = (path, card')")
    case True
    with Cons.prems have "path \<notin> fst ` set writes" by auto
    then have "foldl (\<lambda>m (path, card'). m(path \<mapsto> card')) (fs(path \<mapsto> card')) writes path
        = (fs(path \<mapsto> card')) path"
      by (rule files_unwritten)
    also have "\<dots> = Some card'" by simp
    finally show ?thesis unfolding True by (simp only: foldl_Cons case_prod_conv)
  next
    case False
    with Cons.prems have "(path, card') \<in> set writes" "distinct (map fst writes)" by auto
    from Cons.IH [OF this(2) this(1)] show ?thesis by simp
  qed
qed

lemma files_dom:
  "dom (foldl (\<lambda>m (path, card'). m(path \<mapsto> card')) fs writes) = dom fs \<union> fst ` set writes"
  by (induction writes arbitrary: fs) auto

lemma one_write:
  "distinct (map fst writes) \<Longrightarrow> (path, card') \<in> set writes \<Longrightarrow>
   filter (\<lambda>(path', c). path' = path) writes = [(path, card')]"
proof (induction writes)
  case Nil
  then show ?case by simp
next
  case (Cons w writes)
  show ?case
  proof (cases "w = (path, card')")
    case True
    with Cons.prems have "path \<notin> fst ` set writes" by auto
    then have "filter (\<lambda>(path', c). path' = path) writes = []"
      by (force simp: filter_empty_conv)
    with True show ?thesis by simp
  next
    case False
    with Cons.prems have inside: "(path, card') \<in> set writes" and d: "distinct (map fst writes)" by auto
    from inside have "path \<in> fst ` set writes" by (rule image_eqI [rotated]) simp
    with Cons.prems(1) have "fst w \<noteq> path" by auto
    with Cons.IH [OF d inside] show ?thesis by (cases w) simp
  qed
qed

text \<open>
  C3. \<open>slice_cards\<close> is \<open>slice_grid\<close> on the table \<open>CARD_MAP\<close>; the property is about the loop,
  so it is stated for any table that has a name for every cell of the grid. The cells are
  visited in row-major order; \<open>names\<close> and \<open>cards\<close> list the name and the trimmed card of
  each cell in that order. The run returns a state whose printed lines, \<open>save\<close> calls and
  files are determined: cell \<open>j\<close> is saved when no earlier cell has its name and reported
  as a skipped duplicate otherwise; the paths of the \<open>save\<close> calls are pairwise different
  and are the paths of the names that occur; the counter counts the \<open>save\<close> calls. For two
  cells \<open>i < j\<close> of one name, cell \<open>j\<close> is a skipped duplicate; and when \<open>i\<close> is the first cell of
  its name, the only \<open>save\<close> call at the path of that name is the one of cell \<open>i\<close>, and the
  file at that path holds the card of cell \<open>i\<close> when the run ends. Every cell has such a first
  cell, and paths of other names keep the content they had.
\<close>

theorem slice_grid_first_occurrence_wins:
  assumes "\<forall>cell \<in> set (grid_cells nrows ncols). \<exists>card_name. cell_name card_map cell = Inr card_name"
    and "cells = grid_cells nrows ncols"
    and "names = map (name_of card_map) cells"
    and "cards = map (cell_card sheet) cells"
  shows "\<exists>st. slice_grid card_map nrows ncols sheet fs = Inr st
    \<and> printed st =
        map (\<lambda>j. if first_occurrence names j
                 then Saved (names ! j @ ''.png'') (width (cards ! j)) (height (cards ! j))
                 else Skipped_duplicate (names ! j))
            [0..<length cells]
    \<and> saves st =
        map (\<lambda>j. (output_path_of (names ! j), cards ! j)) (filter (first_occurrence names) [0..<length cells])
    \<and> distinct (map fst (saves st))
    \<and> fst ` set (saves st) = output_path_of ` set names
    \<and> card_count st = length (saves st)
    \<and> seen_cards st = set names
    \<and> files st = foldl (\<lambda>m (path, card'). m(path \<mapsto> card')) fs (saves st)
    \<and> (\<forall>i j. i < j \<and> j < length cells \<and> names ! i = names ! j \<longrightarrow>
          \<not> first_occurrence names j \<and> printed st ! j = Skipped_duplicate (names ! j))
    \<and> (\<forall>i j. i \<le> j \<and> j < length cells \<and> names ! i = names ! j \<and> first_occurrence names i \<longrightarrow>
          printed st ! i = Saved (names ! i @ ''.png'') (width (cards ! i)) (height (cards ! i))
          \<and> filter (\<lambda>(path, card'). path = output_path_of (names ! j)) (saves st)
              = [(output_path_of (names ! i), cards ! i)]
          \<and> files st (output_path_of (names ! j)) = Some (cards ! i))
    \<and> (\<forall>j. j < length cells \<longrightarrow> (\<exists>i\<le>j. names ! i = names ! j \<and> first_occurrence names i))
    \<and> (\<forall>path. path \<notin> output_path_of ` set names \<longrightarrow> files st path = fs path)"
proof -
  define st where "st = save_cards fs (zip names cards)"
  let ?n = "length cells"
  have len: "length names = length cards" and n: "length names = ?n"
    by (simp_all add: assms(3) assms(4))
  have run: "slice_grid card_map nrows ncols sheet fs = Inr st"
    unfolding st_def assms(3) assms(4) assms(2) map_pair_zip [symmetric]
    by (rule slice_grid_save_cards [OF assms(1)])
  have lines: "printed st =
        map (\<lambda>j. if first_occurrence names j
                 then Saved (names ! j @ ''.png'') (width (cards ! j)) (height (cards ! j))
                 else Skipped_duplicate (names ! j))
            [0..<?n]"
    unfolding st_def n [symmetric] by (rule save_cards_zip(2) [OF len])
  have calls: "saves st =
        map (\<lambda>j. (output_path_of (names ! j), cards ! j)) (filter (first_occurrence names) [0..<?n])"
    unfolding st_def n [symmetric] by (rule save_cards_zip(3) [OF len])
  have paths: "map fst (saves st)
      = map (\<lambda>j. output_path_of (names ! j)) (filter (first_occurrence names) [0..<length names])"
    by (simp add: calls n comp_def)
  have d: "distinct (map fst (saves st))"
    unfolding paths by (rule distinct_saved_paths)
  have count: "card_count st = length (saves st)"
    unfolding st_def by (rule save_cards_zip(4) [OF len])
  have seen: "seen_cards st = set names"
    unfolding st_def by (rule save_cards_zip(1) [OF len])
  have fs: "files st = foldl (\<lambda>m (path, card'). m(path \<mapsto> card')) fs (saves st)"
    unfolding st_def by (rule save_cards_zip(5) [OF len])
  have saved: "(output_path_of (names ! i), cards ! i) \<in> set (saves st)"
    if "i < ?n" "first_occurrence names i" for i
    using that by (auto simp: calls)
  have written: "fst ` set (saves st) = output_path_of ` set names"
  proof
    show "fst ` set (saves st) \<subseteq> output_path_of ` set names"
      by (auto simp: calls n [symmetric])
    show "output_path_of ` set names \<subseteq> fst ` set (saves st)"
    proof
      fix path assume "path \<in> output_path_of ` set names"
      then obtain j where j: "j < ?n" "path = output_path_of (names ! j)"
        by (auto simp: in_set_conv_nth n)
      from first_occurrence_exists [of j names] j(1) n
      obtain i where i: "i \<le> j" "names ! i = names ! j" "first_occurrence names i" by auto
      from i(1) j(1) have "i < ?n" by simp
      from saved [OF this i(3)] have "fst (output_path_of (names ! i), cards ! i) \<in> fst ` set (saves st)"
        by (rule imageI)
      then show "path \<in> fst ` set (saves st)" by (simp add: j(2) i(2))
    qed
  qed
  have later: "\<not> first_occurrence names j \<and> printed st ! j = Skipped_duplicate (names ! j)"
    if "i < j \<and> j < ?n \<and> names ! i = names ! j" for i j
  proof -
    from that n have "\<not> first_occurrence names j"
      by (intro later_occurrence [of i j names]) simp_all
    with that show ?thesis by (simp add: lines)
  qed
  have first: "printed st ! i = Saved (names ! i @ ''.png'') (width (cards ! i)) (height (cards ! i))
          \<and> filter (\<lambda>(path, card'). path = output_path_of (names ! j)) (saves st)
              = [(output_path_of (names ! i), cards ! i)]
          \<and> files st (output_path_of (names ! j)) = Some (cards ! i)"
    if "i \<le> j \<and> j < ?n \<and> names ! i = names ! j \<and> first_occurrence names i" for i j
  proof -
    from that have i: "i < ?n" "first_occurrence names i" and same: "names ! j = names ! i" by simp_all
    have line: "printed st ! i = Saved (names ! i @ ''.png'') (width (cards ! i)) (height (cards ! i))"
      using i by (simp add: lines)
    note one_write [OF d saved [OF i]] files_written [OF d saved [OF i], of fs]
    with line show ?thesis unfolding same fs by blast
  qed
  have exists: "\<exists>i\<le>j. names ! i = names ! j \<and> first_occurrence names i" if "j < ?n" for j
    using that n by (intro first_occurrence_exists) simp
  have others: "files st path = fs path" if "path \<notin> output_path_of ` set names" for path
    unfolding fs by (rule files_unwritten) (use that written in simp)
  from run lines calls d written count seen fs later first exists others show ?thesis
    by blast
qed

lemma first_occurrence_example:
  "first_occurrence [''A'', ''A''] 0" "\<not> first_occurrence [''A'', ''A''] (Suc 0)"
  by (simp_all add: first_occurrence_def)

lemma duplicate_table_cells: "grid_cells 1 2 = [(0, 0), (0, 1)]"
  by code_simp

lemma duplicate_table_names:
  "map (cell_name [[''A'', ''A'']]) [(0, 0), (0, 1)] = [Inr ''A'', Inr ''A'']"
  "map (name_of [[''A'', ''A'']]) [(0, 0), (0, 1)] = [''A'', ''A'']"
  by code_simp+

lemma output_path_of_A: "output_path_of ''A'' = ''../public/cards/A.png''"
  by code_simp

text \<open>
  A one-row table whose two cells both name the card \<open>A\<close>, and an empty directory: the
  first cell is saved as \<open>A.png\<close>, the second is reported as a duplicate, and the file keeps
  the card of the first cell.
\<close>

theorem slice_grid_first_occurrence_wins_witness:
  "\<exists>st. slice_grid [[''A'', ''A'']] 1 2 \<lparr>mode = RGB, width = 0, height = 0, data = []\<rparr> Map.empty = Inr st
     \<and> printed st =
         [Saved ''A.png'' (width (cell_card \<lparr>mode = RGB, width = 0, height = 0, data = []\<rparr> (0, 0)))
                          (height (cell_card \<lparr>mode = RGB, width = 0, height = 0, data = []\<rparr> (0, 0))),
          Skipped_duplicate ''A'']
     \<and> saves st = [(''../public/cards/A.png'', cell_card \<lparr>mode = RGB, width = 0, height = 0, data = []\<rparr> (0, 0))]
     \<and> card_count st = 1
     \<and> files st ''../public/cards/A.png'' = Some (cell_card \<lparr>mode = RGB, width = 0, height = 0, data = []\<rparr> (0, 0))"
proof -
  let ?sheet = "\<lparr>mode = RGB, width = 0, height = 0, data = []\<rparr>"
  have named: "\<forall>cell \<in> set (grid_cells 1 2). \<exists>card_name. cell_name [[''A'', ''A'']] cell = Inr card_name"
    unfolding duplicate_table_cells using duplicate_table_names(1) by simp
  let ?names = "[''A'', ''A'']"
  let ?cards = "map (cell_card ?sheet) [(0, 0), (0, 1)]"
  note run = slice_grid_first_occurrence_wins [OF named refl refl refl, of ?sheet Map.empty,
      unfolded duplicate_table_cells duplicate_table_names(2)]
  then obtain st where result: "slice_grid [[''A'', ''A'']] 1 2 ?sheet Map.empty = Inr st"
    and lines: "printed st =
        map (\<lambda>j. if first_occurrence ?names j
                 then Saved (?names ! j @ ''.png'') (width (?cards ! j)) (height (?cards ! j))
                 else Skipped_duplicate (?names ! j))
            [0..<length [(0 :: nat, 0 :: nat), (0, 1)]]"
    and calls: "saves st =
        map (\<lambda>j. (output_path_of (?names ! j), ?cards ! j))
            (filter (first_occurrence ?names) [0..<length [(0 :: nat, 0 :: nat), (0, 1)]])"
    and count: "card_count st = length (saves st)"
    and fs: "files st = foldl (\<lambda>m (path, card'). m(path \<mapsto> card')) Map.empty (saves st)"
    by (elim exE conjE) (rule that)
  have indexes: "[0..<length [(0 :: nat, 0 :: nat), (0, 1)]] = [0, Suc 0]"
    by code_simp
  have lines': "printed st =
      [Saved ''A.png'' (width (cell_card ?sheet (0, 0))) (height (cell_card ?sheet (0, 0))),
       Skipped_duplicate ''A'']"
    unfolding lines indexes by (simp add: first_occurrence_example)
  have calls': "saves st = [(''../public/cards/A.png'', cell_card ?sheet (0, 0))]"
    unfolding calls indexes by (simp add: first_occurrence_example output_path_of_A)
  from count have "card_count st = 1" by (simp add: calls')
  moreover have "files st ''../public/cards/A.png'' = Some (cell_card ?sheet (0, 0))"
    unfolding fs calls' by simp
  ultimately show ?thesis using result lines' calls' by blast
qed

text \<open>A run over cells whose names are pairwise different saves every one of them.\<close>

lemma save_cards_all_new:
  assumes "distinct (map fst cards)"
  shows "printed (save_cards fs cards) = map (\<lambda>(card_name, card'). Saved (card_name @ ''.png'') (width card') (height card')) cards"
    and "saves (save_cards fs cards) = map (\<lambda>(card_name, card'). (output_path_of card_name, card')) cards"
proof -
  have all: "\<forall>j \<in> set [0..<length cards]. first_occurrence (map fst cards) j"
    using distinct_first_occurrence [OF assms] by simp
  from all have every: "filter (first_occurrence (map fst cards)) [0..<length cards] = [0..<length cards]"
    by (simp only: filter_True)
  note state = save_cards_state [of fs cards, unfolded every]
  from state have "printed (save_cards fs cards) =
       map (\<lambda>j. if first_occurrence (map fst cards) j
                then Saved (fst (cards ! j) @ ''.png'') (width (snd (cards ! j))) (height (snd (cards ! j)))
                else Skipped_duplicate (fst (cards ! j)))
           [0..<length cards]" by blast
  also have "\<dots> = map (\<lambda>(card_name, card'). Saved (card_name @ ''.png'') (width card') (height card')) cards"
    using all by (intro nth_equalityI) (simp_all add: case_prod_beta)
  finally show "printed (save_cards fs cards)
      = map (\<lambda>(card_name, card'). Saved (card_name @ ''.png'') (width card') (height card')) cards" .
  from state have "saves (save_cards fs cards) =
       map (\<lambda>j. (output_path_of (fst (cards ! j)), snd (cards ! j))) [0..<length cards]" by blast
  also have "\<dots> = map (\<lambda>(card_name, card'). (output_path_of card_name, card')) cards"
    by (intro nth_equalityI) (simp_all add: case_prod_beta)
  finally show "saves (save_cards fs cards)
      = map (\<lambda>(card_name, card'). (output_path_of card_name, card')) cards" .
qed

text \<open>The names the table gives the cells of the 6 by 9 grid, in the order of the loops.\<close>

lemma CARD_MAP_cell_names:
  "map (cell_name CARD_MAP) (grid_cells ROWS COLS) = map Inr (concat CARD_MAP)"
  "map (name_of CARD_MAP) (grid_cells ROWS COLS) = concat CARD_MAP"
  "map (\<lambda>cell. CARD_MAP ! fst cell ! snd cell) (grid_cells ROWS COLS) = concat CARD_MAP"
  by code_simp+

lemma CARD_MAP_named:
  "\<forall>cell \<in> set (grid_cells ROWS COLS). \<exists>card_name. cell_name CARD_MAP cell = Inr card_name"
proof
  fix cell assume "cell \<in> set (grid_cells ROWS COLS)"
  then have "cell_name CARD_MAP cell \<in> set (map (cell_name CARD_MAP) (grid_cells ROWS COLS))"
    by simp
  then show "\<exists>card_name. cell_name CARD_MAP cell = Inr card_name"
    unfolding CARD_MAP_cell_names(1) by auto
qed

lemma CARD_MAP_name_of:
  "cell \<in> set (grid_cells ROWS COLS) \<Longrightarrow> name_of CARD_MAP cell = CARD_MAP ! fst cell ! snd cell"
proof -
  have "map (name_of CARD_MAP) (grid_cells ROWS COLS)
      = map (\<lambda>cell. CARD_MAP ! fst cell ! snd cell) (grid_cells ROWS COLS)"
    by (simp only: CARD_MAP_cell_names)
  then show "cell \<in> set (grid_cells ROWS COLS) \<Longrightarrow> name_of CARD_MAP cell = CARD_MAP ! fst cell ! snd cell"
    by (simp only: map_eq_conv)
qed

lemma grid_cells_length: "length (grid_cells ROWS COLS) = 54"
  by code_simp

lemma CARD_MAP_filenames:
  "set (map (\<lambda>card_name. card_name @ ''.png'') (concat CARD_MAP))
   = set (concat (map (\<lambda>suit. map (\<lambda>rank. rank @ ''_'' @ suit @ ''.png'') CARD_NAMES) SUITS)
          @ [''joker.png'', ''back.png''])"
  by code_simp

lemma CARD_MAP_paths:
  "map (\<lambda>card_name. path_join OUTPUT_DIR (card_name @ ''.png'')) (concat CARD_MAP)
   = map (\<lambda>card_name. ''../public/cards/'' @ card_name @ ''.png'') (concat CARD_MAP)"
  by code_simp

lemma rank_suit_filenames_card: "card rank_suit_filenames = 52"
proof -
  have "distinct (concat (map (\<lambda>suit. map (\<lambda>rank. rank @ ''_'' @ suit @ ''.png'') CARD_NAMES) SUITS))"
    by code_simp
  moreover have "length (concat (map (\<lambda>suit. map (\<lambda>rank. rank @ ''_'' @ suit @ ''.png'') CARD_NAMES) SUITS)) = 52"
    by code_simp
  ultimately show ?thesis
    unfolding rank_suit_filenames_list by (simp only: distinct_card)
qed

lemma CARD_MAP_rank_suit_paths:
  "length (filter (\<lambda>path. path \<in> set (map (path_join OUTPUT_DIR)
        (concat (map (\<lambda>suit. map (\<lambda>rank. rank @ ''_'' @ suit @ ''.png'') CARD_NAMES) SUITS))))
     (map (\<lambda>card_name. path_join OUTPUT_DIR (card_name @ ''.png'')) (concat CARD_MAP))) = 52"
  by code_simp

lemma length_filter_fst:
  "length (filter (\<lambda>(x, y). P x) xs) = length (filter P (map fst xs))"
  by (induction xs) auto

text \<open>
  C2. A run of \<open>slice_cards\<close> on any sprite sheet and any directory content returns, and its
  \<open>save\<close> calls are one per cell of the 6 by 9 grid, in row-major order, at the path of the
  cell's name with the trimmed card of the cell; the printed lines are the 54 \<open>Saved\<close> lines,
  none reports a duplicate. The paths are the 54 strings \<open>../public/cards/<name>.png\<close> for the
  names of the table; they are pairwise different, and their set is the directory joined
  with the 52 \<open><rank>_<suit>.png\<close> filenames, \<open>joker.png\<close> and \<open>back.png\<close>. So the run writes
  54 files, 52 of them the rank and suit cards, and the counter it prints is 54. The
  directory after the run is its content before with these writes applied.
\<close>

theorem slice_cards_writes_each_name_once:
  "\<exists>st. slice_cards sheet fs = Inr st
     \<and> saves st =
         map (\<lambda>cell. (path_join OUTPUT_DIR (CARD_MAP ! fst cell ! snd cell @ ''.png''), cell_card sheet cell))
             (grid_cells ROWS COLS)
     \<and> printed st =
         map (\<lambda>cell. Saved (CARD_MAP ! fst cell ! snd cell @ ''.png'')
                           (width (cell_card sheet cell)) (height (cell_card sheet cell)))
             (grid_cells ROWS COLS)
     \<and> map (\<lambda>cell. CARD_MAP ! fst cell ! snd cell) (grid_cells ROWS COLS) = concat CARD_MAP
     \<and> map fst (saves st) = map (\<lambda>card_name. ''../public/cards/'' @ card_name @ ''.png'') (concat CARD_MAP)
     \<and> distinct (map fst (saves st))
     \<and> fst ` set (saves st) = path_join OUTPUT_DIR ` (rank_suit_filenames \<union> {''joker.png'', ''back.png''})
     \<and> length (saves st) = 54
     \<and> card_count st = 54
     \<and> card rank_suit_filenames = 52
     \<and> length (filter (\<lambda>(path, card'). path \<in> path_join OUTPUT_DIR ` rank_suit_filenames) (saves st)) = 52
     \<and> files st = foldl (\<lambda>m (path, card'). m(path \<mapsto> card')) fs (saves st)
     \<and> dom (files st) = dom fs \<union> path_join OUTPUT_DIR ` (rank_suit_filenames \<union> {''joker.png'', ''back.png''})"
proof -
  let ?cells = "grid_cells ROWS COLS"
  define cs where "cs = map (\<lambda>cell. (name_of CARD_MAP cell, cell_card sheet cell)) ?cells"
  define st where "st = save_cards fs cs"
  have run: "slice_cards sheet fs = Inr st"
    unfolding slice_cards_def st_def cs_def by (rule slice_grid_save_cards [OF CARD_MAP_named])
  have names: "map fst cs = concat CARD_MAP"
    by (simp add: cs_def comp_def CARD_MAP_cell_names(2))
  have d: "distinct (map fst cs)"
    unfolding names by (rule CARD_MAP_distinct)
  have "saves st = map (\<lambda>(card_name, card'). (output_path_of card_name, card')) cs"
    unfolding st_def by (rule save_cards_all_new(2) [OF d])
  also have "\<dots> = map (\<lambda>cell. (output_path_of (name_of CARD_MAP cell), cell_card sheet cell)) ?cells"
    by (simp add: cs_def comp_def)
  also have "\<dots> = map (\<lambda>cell. (path_join OUTPUT_DIR (CARD_MAP ! fst cell ! snd cell @ ''.png''), cell_card sheet cell)) ?cells"
    by (rule map_cong [OF refl]) (simp add: CARD_MAP_name_of output_path_of_def)
  finally have calls: "saves st =
      map (\<lambda>cell. (path_join OUTPUT_DIR (CARD_MAP ! fst cell ! snd cell @ ''.png''), cell_card sheet cell)) ?cells" .
  have "printed st = map (\<lambda>(card_name, card'). Saved (card_name @ ''.png'') (width card') (height card')) cs"
    unfolding st_def by (rule save_cards_all_new(1) [OF d])
  also have "\<dots> = map (\<lambda>cell. Saved (name_of CARD_MAP cell @ ''.png'')
                           (width (cell_card sheet cell)) (height (cell_card sheet cell))) ?cells"
    by (simp add: cs_def comp_def)
  also have "\<dots> = map (\<lambda>cell. Saved (CARD_MAP ! fst cell ! snd cell @ ''.png'')
                           (width (cell_card sheet cell)) (height (cell_card sheet cell))) ?cells"
    by (rule map_cong [OF refl]) (simp add: CARD_MAP_name_of)
  finally have lines: "printed st =
      map (\<lambda>cell. Saved (CARD_MAP ! fst cell ! snd cell @ ''.png'')
                           (width (cell_card sheet cell)) (height (cell_card sheet cell))) ?cells" .
  have "map fst (saves st) = map (\<lambda>card_name. path_join OUTPUT_DIR (card_name @ ''.png''))
      (map (\<lambda>cell. CARD_MAP ! fst cell ! snd cell) ?cells)"
    by (simp add: calls comp_def)
  then have paths: "map fst (saves st)
      = map (\<lambda>card_name. path_join OUTPUT_DIR (card_name @ ''.png'')) (concat CARD_MAP)"
    by (simp only: CARD_MAP_cell_names(3))
  have paths': "map fst (saves st)
      = map (\<lambda>card_name. ''../public/cards/'' @ card_name @ ''.png'') (concat CARD_MAP)"
    unfolding paths by (rule CARD_MAP_paths)
  have different: "distinct (map fst (saves st))"
    unfolding paths' by (simp add: distinct_map CARD_MAP_distinct inj_on_def)
  have "fst ` set (saves st) = set (map fst (saves st))" by simp
  also have "\<dots> = path_join OUTPUT_DIR ` set (map (\<lambda>card_name. card_name @ ''.png'') (concat CARD_MAP))"
    unfolding paths by (simp add: image_image)
  also have "\<dots> = path_join OUTPUT_DIR ` (rank_suit_filenames \<union> {''joker.png'', ''back.png''})"
    unfolding CARD_MAP_filenames rank_suit_filenames_list by simp
  finally have written: "fst ` set (saves st)
      = path_join OUTPUT_DIR ` (rank_suit_filenames \<union> {''joker.png'', ''back.png''})" .
  have n: "length (saves st) = 54"
    by (simp add: calls grid_cells_length)
  have "card_count st = length (saves st)"
    using save_cards_state [of fs cs] unfolding st_def by blast
  with n have count: "card_count st = 54" by simp
  have "length (filter (\<lambda>(path, card'). path \<in> path_join OUTPUT_DIR ` rank_suit_filenames) (saves st))
      = length (filter (\<lambda>path. path \<in> path_join OUTPUT_DIR ` rank_suit_filenames) (map fst (saves st)))"
    by (rule length_filter_fst)
  also have "\<dots> = 52"
    unfolding paths rank_suit_filenames_list set_map [symmetric] by (rule CARD_MAP_rank_suit_paths)
  finally have cards: "length (filter (\<lambda>(path, card'). path \<in> path_join OUTPUT_DIR ` rank_suit_filenames) (saves st)) = 52" .
  have fs: "files st = foldl (\<lambda>m (path, card'). m(path \<mapsto> card')) fs (saves st)"
    using save_cards_state [of fs cs] unfolding st_def by blast
  have directory: "dom (files st) = dom fs \<union> path_join OUTPUT_DIR ` (rank_suit_filenames \<union> {''joker.png'', ''back.png''})"
    unfolding fs files_dom written ..
  from run calls lines CARD_MAP_cell_names(3) paths' different written n count rank_suit_filenames_card
    cards fs directory
  show ?thesis by blast
qed

end
